theory Spec2Isabelle
  imports Complex_Main
begin

section \<open>Python string primitives\<close>

text \<open>
  Text is a list of characters. A \<^typ>\<open>char\<close> is one code point below 256; for
  these, Python's \<^verbatim>\<open>str.strip()\<close> removes the code points 9..13, 28..31, 32, 133
  and 160.
\<close>

definition nl :: char where
  "nl = CHR 0x0A"

definition is_space :: "char \<Rightarrow> bool" where
  "is_space c = (c \<in> set [CHR 0x09, CHR 0x0A, CHR 0x0B, CHR 0x0C, CHR 0x0D,
                            CHR 0x1C, CHR 0x1D, CHR 0x1E, CHR 0x1F, CHR 0x20,
                            CHR 0x85, CHR 0xA0])"

text \<open>\<^verbatim>\<open>s.strip()\<close>\<close>

definition strip :: "string \<Rightarrow> string" where
  "strip s = rev (dropWhile is_space (rev (dropWhile is_space s)))"

text \<open>\<^verbatim>\<open>s.startswith(p)\<close>\<close>

definition startswith :: "string \<Rightarrow> string \<Rightarrow> bool" where
  "startswith s p = (take (length p) s = p)"

text \<open>\<^verbatim>\<open>s.split("\n")\<close>: never empty, one more piece than there are newlines.\<close>

fun split_nl :: "string \<Rightarrow> string list" where
  "split_nl [] = [[]]"
| "split_nl (c # cs) =
     (if c = nl then [] # split_nl cs
      else (case split_nl cs of [] \<Rightarrow> [[c]] | l # ls \<Rightarrow> (c # l) # ls))"

text \<open>\<^verbatim>\<open>sep.join(parts)\<close>\<close>

fun join :: "string \<Rightarrow> string list \<Rightarrow> string" where
  "join sep [] = []"
| "join sep [x] = x"
| "join sep (x # y # ys) = x @ sep @ join sep (y # ys)"


section \<open>The SSE framer (streams.py, parse\_sse\_events)\<close>

record SSEEvent =
  event :: "string option"
  data :: string
  id_val :: "string option"

text \<open>The four local variables of the loop.\<close>

record sse_state =
  events :: "SSEEvent list"
  current_event :: "string option"
  current_data :: "string list"
  current_id :: "string option"

definition sse_init :: "SSEEvent list \<Rightarrow> sse_state" where
  "sse_init es = \<lparr>events = es, current_event = None, current_data = [], current_id = None\<rparr>"

text \<open>One iteration of the \<^verbatim>\<open>for line in text.split("\n")\<close> loop.\<close>

definition sse_step :: "sse_state \<Rightarrow> string \<Rightarrow> sse_state" where
  "sse_step st line =
     (if line = [] then
        sse_init (if current_data st \<noteq> []
                  then events st @ [\<lparr>event = current_event st,
                                      data = join [nl] (current_data st),
                                      id_val = current_id st\<rparr>]
                  else events st)
      else if startswith line ''event:'' then
        st\<lparr>current_event := Some (strip (drop (length ''event:'') line))\<rparr>
      else if startswith line ''data:'' then
        st\<lparr>current_data := current_data st @ [strip (drop (length ''data:'') line)]\<rparr>
      else if startswith line ''id:'' then
        st\<lparr>current_id := Some (strip (drop (length ''id:'') line))\<rparr>
      else st)"

definition parse_sse_events :: "string \<Rightarrow> SSEEvent list" where
  "parse_sse_events text = events (foldl sse_step (sse_init []) (split_nl text))"


subsection \<open>What the framer computes, block by block\<close>

text \<open>
  The lines of the input, cut at every empty line. The last block is the one that no
  empty line closes.
\<close>

fun blocks :: "string list \<Rightarrow> string list list" where
  "blocks [] = [[]]"
| "blocks (l # ls) =
     (if l = [] then [] # blocks ls
      else (case blocks ls of [] \<Rightarrow> [[l]] | b # bs \<Rightarrow> (l # b) # bs))"

definition is_event_line :: "string \<Rightarrow> bool" where
  "is_event_line l = startswith l ''event:''"

definition is_data_line :: "string \<Rightarrow> bool" where
  "is_data_line l = startswith l ''data:''"

definition is_id_line :: "string \<Rightarrow> bool" where
  "is_id_line l = startswith l ''id:''"

definition last_field :: "nat \<Rightarrow> string list \<Rightarrow> string option" where
  "last_field n ls = (case ls of [] \<Rightarrow> None | _ # _ \<Rightarrow> Some (strip (drop n (last ls))))"

definition data_parts :: "string list \<Rightarrow> string list" where
  "data_parts b = map (\<lambda>l. strip (drop (length ''data:'') l)) (filter is_data_line b)"

definition block_frame :: "string list \<Rightarrow> SSEEvent" where
  "block_frame b = \<lparr>event = last_field (length ''event:'') (filter is_event_line b),
                     data = join [nl] (data_parts b),
                     id_val = last_field (length ''id:'') (filter is_id_line b)\<rparr>"

definition closed_blocks :: "string \<Rightarrow> string list list" where
  "closed_blocks text = butlast (blocks (split_nl text))"


definition has_data_line :: "string list \<Rightarrow> bool" where
  "has_data_line b = (filter is_data_line b \<noteq> [])"

text \<open>
  The reading of a \<^verbatim>\<open>data:\<close> line in which one leading space is removed and nothing
  else, to compare with what the framer does.
\<close>

definition strip_one_space :: "string \<Rightarrow> string" where
  "strip_one_space s = (case s of [] \<Rightarrow> [] | c # cs \<Rightarrow> if c = CHR '' '' then cs else s)"

definition data_parts_one_space :: "string list \<Rightarrow> string list" where
  "data_parts_one_space b =
     map (\<lambda>l. strip_one_space (drop (length ''data:'') l)) (filter is_data_line b)"


subsection \<open>Writing a frame back as SSE text\<close>

text \<open>
  Modelled from the spec: the repository has no SSE serializer. A frame is written as
  its \<^verbatim>\<open>event:\<close> line when it has an event, one \<^verbatim>\<open>data:\<close> line for each line of its
  data, its \<^verbatim>\<open>id:\<close> line when it has an id, and a blank line; every line ends in a
  newline and each field name is followed by ": ".
\<close>

definition sse_lines :: "SSEEvent \<Rightarrow> string list" where
  "sse_lines f =
     (case event f of None \<Rightarrow> [] | Some e \<Rightarrow> [''event: '' @ e])
     @ map (\<lambda>d. ''data: '' @ d) (split_nl (data f))
     @ (case id_val f of None \<Rightarrow> [] | Some i \<Rightarrow> [''id: '' @ i])"

definition serialize_sse :: "SSEEvent \<Rightarrow> string" where
  "serialize_sse f = concat (map (\<lambda>l. l @ [nl]) (sse_lines f @ [[]]))"

text \<open>A text with no whitespace at either end, and the frames made of such texts.\<close>

definition clean :: "string \<Rightarrow> bool" where
  "clean t = (t = [] \<or> (\<not> is_space (hd t) \<and> \<not> is_space (last t)))"

definition sse_normal :: "SSEEvent \<Rightarrow> bool" where
  "sse_normal f =
     ((case event f of None \<Rightarrow> True | Some e \<Rightarrow> clean e \<and> nl \<notin> set e)
      \<and> list_all clean (split_nl (data f))
      \<and> (case id_val f of None \<Rightarrow> True | Some i \<Rightarrow> clean i \<and> nl \<notin> set i))"


section \<open>The proprietary framer (streams.py, parse\_kagi\_stream\_lines)\<close>

record KagiStreamLine =
  tag :: string
  payload :: string

text \<open>
  The pattern \<^verbatim>\<open>^([a-zA-Z_][a-zA-Z0-9_.\-]*):(.*)$\<close>, matched at the start of a text. The
  colon is no tag character, so the tag is the longest run of tag characters. The dot
  matches no newline and \<^verbatim>\<open>$\<close> matches at the end or before a final newline.
\<close>

definition is_ascii_letter :: "char \<Rightarrow> bool" where
  "is_ascii_letter c =
     (let n = (of_char c :: nat) in (65 \<le> n \<and> n \<le> 90) \<or> (97 \<le> n \<and> n \<le> 122))"

definition is_ascii_digit :: "char \<Rightarrow> bool" where
  "is_ascii_digit c = (let n = (of_char c :: nat) in 48 \<le> n \<and> n \<le> 57)"

definition is_tag_start :: "char \<Rightarrow> bool" where
  "is_tag_start c = (is_ascii_letter c \<or> c = CHR ''_'')"

definition is_tag_char :: "char \<Rightarrow> bool" where
  "is_tag_char c =
     (is_ascii_letter c \<or> is_ascii_digit c \<or> c = CHR ''_'' \<or> c = CHR ''.'' \<or> c = CHR ''-'')"

definition tag_match :: "string \<Rightarrow> (string \<times> string) option" where
  "tag_match s =
     (let t = takeWhile is_tag_char s; r = dropWhile is_tag_char s in
      if t \<noteq> [] \<and> is_tag_start (hd t) \<and> r \<noteq> [] \<and> hd r = CHR '':'' then
        (let p = tl r in
         if nl \<notin> set p then Some (t, p)
         else if last p = nl \<and> nl \<notin> set (butlast p) then Some (t, butlast p)
         else None)
      else None)"

text \<open>
  The inner \<^verbatim>\<open>while\<close> loop of parse\_kagi\_stream\_lines: from index \<open>i\<close> on it skips
  blank lines, stops at a tag line and appends every other line. It returns the parts
  and the index it stopped at.
\<close>

function continuation_loop :: "string list \<Rightarrow> nat \<Rightarrow> string list \<Rightarrow> string list \<times> nat" where
  "continuation_loop raw_lines i payload_parts =
     (if i < length raw_lines then
        (let next_line = raw_lines ! i in
         if strip next_line = [] then continuation_loop raw_lines (i + 1) payload_parts
         else if tag_match next_line \<noteq> None then (payload_parts, i)
         else continuation_loop raw_lines (i + 1) (payload_parts @ [next_line]))
      else (payload_parts, i))"
  by pat_completeness auto
termination
  by (relation "measure (\<lambda>(raw_lines, i, payload_parts). length raw_lines - i)") auto

declare continuation_loop.simps [simp del]

lemma continuation_loop_index: "i \<le> snd (continuation_loop raw_lines i payload_parts)"
proof (induction raw_lines i payload_parts rule: continuation_loop.induct)
  case (1 raw_lines i payload_parts)
  show ?case
    using 1 by (subst continuation_loop.simps) (auto simp: Let_def intro: Suc_leD)
qed

lemma continuation_loop_result:
  "(payload_parts', j) = continuation_loop raw_lines i payload_parts \<Longrightarrow> i \<le> j"
  using continuation_loop_index [of i raw_lines payload_parts] by (metis snd_conv)

text \<open>The outer \<^verbatim>\<open>while i < len(raw_lines)\<close> loop.\<close>

function kagi_loop :: "string list \<Rightarrow> nat \<Rightarrow> KagiStreamLine list \<Rightarrow> KagiStreamLine list" where
  "kagi_loop raw_lines i lines =
     (if i < length raw_lines then
        (let raw = raw_lines ! i in
         if strip raw = [] then kagi_loop raw_lines (i + 1) lines
         else (case tag_match raw of
                 Some (tg, rest) \<Rightarrow>
                   (case continuation_loop raw_lines (i + 1) [rest] of
                      (payload_parts, j) \<Rightarrow>
                        kagi_loop raw_lines j
                          (lines @ [\<lparr>tag = tg,
                                     payload = join [nl] (filter (\<lambda>p. strip p \<noteq> []) payload_parts)\<rparr>]))
               | None \<Rightarrow> kagi_loop raw_lines (i + 1) lines))
      else lines)"
  by pat_completeness auto
termination
  apply (relation "measure (\<lambda>(raw_lines, i, lines). length raw_lines - i)")
     apply auto
  apply (drule continuation_loop_result)
  apply arith
  done

declare kagi_loop.simps [simp del]

definition parse_kagi_stream_lines :: "string \<Rightarrow> KagiStreamLine list" where
  "parse_kagi_stream_lines text = kagi_loop (split_nl text) 0 []"

text \<open>\<^verbatim>\<open>parse_kagi_stream_line\<close>: one line, stripped first.\<close>

definition parse_kagi_stream_line :: "string \<Rightarrow> KagiStreamLine option" where
  "parse_kagi_stream_line line =
     (case tag_match (strip line) of
        Some (tg, rest) \<Rightarrow> Some \<lparr>tag = tg, payload = rest\<rparr>
      | None \<Rightarrow> None)"


subsection \<open>What the framer computes, tag line by tag line\<close>

text \<open>
  Each tag line of the input with its tag, the rest of the tag line after the colon, and
  the lines that follow it up to the next tag line or the end of the input. Lines before
  the first tag line belong to no segment.
\<close>

function tag_segments :: "string list \<Rightarrow> (string \<times> string \<times> string list) list" where
  "tag_segments [] = []"
| "tag_segments (l # ls) =
     (case tag_match l of
        None \<Rightarrow> tag_segments ls
      | Some (tg, rest) \<Rightarrow>
          (tg, rest, takeWhile (\<lambda>x. tag_match x = None) ls)
          # tag_segments (dropWhile (\<lambda>x. tag_match x = None) ls))"
  by pat_completeness auto
termination
  by (relation "measure length") (auto simp: length_dropWhile_le less_Suc_eq_le)

definition segment_frame :: "string \<times> string \<times> string list \<Rightarrow> KagiStreamLine" where
  "segment_frame = (\<lambda>(tg, rest, following).
     \<lparr>tag = tg, payload = join [nl] (filter (\<lambda>p. strip p \<noteq> []) (rest # following))\<rparr>)"

text \<open>The payload made of the following lines alone, without the rest of the tag line.\<close>

definition following_payload :: "string \<times> string \<times> string list \<Rightarrow> string" where
  "following_payload = (\<lambda>(tg, rest, following).
     join [nl] (filter (\<lambda>p. strip p \<noteq> []) following))"


section \<open>Decoded JSON values and Python's operations on them\<close>

text \<open>
  What \<^verbatim>\<open>json.loads\<close> returns: \<^verbatim>\<open>None\<close>, a bool, an int, a float, a str, a list or a
  dict. A dict is the list of its items, with distinct keys. The value of a finite
  float is kept as a rational.
\<close>

datatype pyfloat = Finite rat | PosInf | NegInf | NaN

datatype json =
    JNull
  | JBool bool
  | JInt int
  | JFloat pyfloat
  | JStr string
  | JArr "json list"
  | JObj "(string \<times> json) list"

text \<open>The exceptions that the reducers can raise. An APIError carries its message,
  status code and body.\<close>

datatype error =
    JSONDecodeError
  | KeyError string
  | TypeError
  | AttributeError
  | IndexError
  | APIError string int string

text \<open>\<^verbatim>\<open>str(i)\<close> of an int, as an f-string writes it.\<close>

fun str_nat :: "nat \<Rightarrow> string" where
  "str_nat n =
     (if n < 10 then [char_of (48 + n)]
      else str_nat (n div 10) @ [char_of (48 + n mod 10)])"

declare str_nat.simps [simp del]

definition str_int :: "int \<Rightarrow> string" where
  "str_int i = (if i < 0 then ''-'' @ str_nat (nat (- i)) else str_nat (nat i))"

definition and_then :: "error + 'a \<Rightarrow> ('a \<Rightarrow> error + 'b) \<Rightarrow> error + 'b" where
  "and_then r f = (case r of Inl e \<Rightarrow> Inl e | Inr x \<Rightarrow> f x)"

text \<open>
  Python's \<^verbatim>\<open>==\<close> on decoded values: bools and numbers compare by value and a NaN is
  equal to nothing. Lists compare element by element and dicts item by item, and there
  an element is equal to itself before \<^verbatim>\<open>==\<close> is asked: the decoder returns one and
  the same object for every NaN, so inside a list or a dict a NaN is equal to a NaN.
\<close>

fun num_of :: "json \<Rightarrow> pyfloat option" where
  "num_of (JBool b) = Some (Finite (if b then 1 else 0))"
| "num_of (JInt i) = Some (Finite (of_int i))"
| "num_of (JFloat f) = Some f"
| "num_of _ = None"

fun float_eq :: "pyfloat \<Rightarrow> pyfloat \<Rightarrow> bool" where
  "float_eq (Finite r) (Finite q) = (r = q)"
| "float_eq PosInf PosInf = True"
| "float_eq NegInf NegInf = True"
| "float_eq _ _ = False"

fun py_eq :: "json \<Rightarrow> json \<Rightarrow> bool"
  and py_eq_list :: "json list \<Rightarrow> json list \<Rightarrow> bool"
  and py_eq_items :: "(string \<times> json) list \<Rightarrow> (string \<times> json) list \<Rightarrow> bool" where
  "py_eq JNull JNull = True"
| "py_eq (JStr s) (JStr t) = (s = t)"
| "py_eq (JArr xs) (JArr ys) = py_eq_list xs ys"
| "py_eq (JObj kvs) (JObj kws) = (length kvs = length kws \<and> py_eq_items kvs kws)"
| "py_eq a b = (case (num_of a, num_of b) of (Some x, Some y) \<Rightarrow> float_eq x y | _ \<Rightarrow> False)"
| "py_eq_list [] [] = True"
| "py_eq_list (x # xs) (y # ys) =
     (((x = JFloat NaN \<and> y = JFloat NaN) \<or> py_eq x y) \<and> py_eq_list xs ys)"
| "py_eq_list _ _ = False"
| "py_eq_items [] kws = True"
| "py_eq_items ((k, v) # kvs) kws =
     ((case map_of kws k of
         None \<Rightarrow> False
       | Some w \<Rightarrow> (v = JFloat NaN \<and> w = JFloat NaN) \<or> py_eq v w)
      \<and> py_eq_items kvs kws)"

text \<open>Python's truth value of a decoded value.\<close>

fun truthy :: "json \<Rightarrow> bool" where
  "truthy JNull = False"
| "truthy (JBool b) = b"
| "truthy (JInt i) = (i \<noteq> 0)"
| "truthy (JFloat f) = (f \<noteq> Finite 0)"
| "truthy (JStr s) = (s \<noteq> [])"
| "truthy (JArr xs) = (xs \<noteq> [])"
| "truthy (JObj kvs) = (kvs \<noteq> [])"

text \<open>\<^verbatim>\<open>d.get(k, default)\<close>: only a dict has the method.\<close>

fun py_get :: "json \<Rightarrow> string \<Rightarrow> json \<Rightarrow> error + json" where
  "py_get (JObj kvs) k dflt = Inr (case map_of kvs k of None \<Rightarrow> dflt | Some v \<Rightarrow> v)"
| "py_get _ k dflt = Inl AttributeError"

text \<open>\<^verbatim>\<open>d[k]\<close> with a str key.\<close>

fun py_subscript :: "json \<Rightarrow> string \<Rightarrow> error + json" where
  "py_subscript (JObj kvs) k = (case map_of kvs k of None \<Rightarrow> Inl (KeyError k) | Some v \<Rightarrow> Inr v)"
| "py_subscript _ k = Inl TypeError"

text \<open>\<^verbatim>\<open>k in d\<close> with a str \<open>k\<close>: a key of a dict, an element of a list, a substring of a
  str; a TypeError on anything else.\<close>

fun contains_str :: "string \<Rightarrow> string \<Rightarrow> bool" where
  "contains_str k [] = (k = [])"
| "contains_str k (c # cs) = (startswith (c # cs) k \<or> contains_str k cs)"

fun py_contains :: "string \<Rightarrow> json \<Rightarrow> error + bool" where
  "py_contains k (JObj kvs) = Inr (map_of kvs k \<noteq> None)"
| "py_contains k (JArr xs) = Inr (list_ex (\<lambda>x. py_eq x (JStr k)) xs)"
| "py_contains k (JStr s) = Inr (contains_str k s)"
| "py_contains k _ = Inl TypeError"


section \<open>A JSON decoder for running the reducers\<close>

text \<open>
  The reducers take the library's decoder as a parameter: \<open>loads\<close> for \<^verbatim>\<open>json.loads\<close>
  and \<open>raw_decode\<close> for \<^verbatim>\<open>JSONDecoder.raw_decode\<close> without its end index, both with
  \<open>None\<close> for a JSONDecodeError. Every general statement below holds for any decoder.

  To run a reducer on a text, the decoder of this section follows the library's scanner
  on JSON with integer numbers and strings without \<^verbatim>\<open>\u\<close> escapes; on a number with a
  fraction or an exponent and on a \<^verbatim>\<open>\u\<close> escape it gives up with \<open>None\<close>, which the
  library would not, so it is used on texts without them only. The fuel, one more than
  twice the length of the text, bounds the number of nested calls.
\<close>

definition is_json_ws :: "char \<Rightarrow> bool" where
  "is_json_ws c = (c \<in> set [CHR '' '', CHR 0x09, CHR 0x0A, CHR 0x0D])"

definition skip_ws :: "string \<Rightarrow> string" where
  "skip_ws s = dropWhile is_json_ws s"

definition unescape :: "char \<Rightarrow> char option" where
  "unescape c =
     map_of [(CHR 0x22, CHR 0x22), (CHR 0x5C, CHR 0x5C), (CHR ''/'', CHR ''/''),
             (CHR ''b'', CHR 0x08), (CHR ''f'', CHR 0x0C), (CHR ''n'', CHR 0x0A),
             (CHR ''r'', CHR 0x0D), (CHR ''t'', CHR 0x09)] c"

text \<open>The text after an opening quote, up to the closing quote.\<close>

fun scan_string :: "string \<Rightarrow> (string \<times> string) option" where
  "scan_string [] = None"
| "scan_string (c # cs) =
     (if c = CHR 0x22 then Some ([], cs)
      else if c = CHR 0x5C then
        (case cs of
           [] \<Rightarrow> None
         | e # cs' \<Rightarrow>
             (case unescape e of
                None \<Rightarrow> None
              | Some ch \<Rightarrow> map_option (\<lambda>(s, r). (ch # s, r)) (scan_string cs')))
      else if (of_char c :: nat) < 32 then None
      else map_option (\<lambda>(s, r). (c # s, r)) (scan_string cs))"

definition digit_val :: "char \<Rightarrow> int" where
  "digit_val c = int (of_char c) - 48"

definition digits_val :: "string \<Rightarrow> int" where
  "digits_val ds = foldl (\<lambda>a c. 10 * a + digit_val c) 0 ds"

text \<open>
  An integer \<^verbatim>\<open>-?(0|[1-9][0-9]*)\<close>. A fraction \<^verbatim>\<open>\.[0-9]+\<close> or an exponent
  \<^verbatim>\<open>[eE][-+]?[0-9]+\<close> after it makes the number a float, on which this decoder gives up;
  a dot or an \<^verbatim>\<open>e\<close> that starts neither is left in the rest.
\<close>

definition has_fraction :: "string \<Rightarrow> bool" where
  "has_fraction r =
     (case r of c # d # _ \<Rightarrow> c = CHR ''.'' \<and> is_ascii_digit d | _ \<Rightarrow> False)"

definition has_exponent :: "string \<Rightarrow> bool" where
  "has_exponent r =
     (case r of
        c # d # r' \<Rightarrow>
          (c = CHR ''e'' \<or> c = CHR ''E'')
          \<and> (is_ascii_digit d
             \<or> ((d = CHR ''+'' \<or> d = CHR ''-'')
                \<and> (case r' of e # _ \<Rightarrow> is_ascii_digit e | [] \<Rightarrow> False)))
      | _ \<Rightarrow> False)"

definition scan_number :: "string \<Rightarrow> (json \<times> string) option" where
  "scan_number s =
     (let neg = (s \<noteq> [] \<and> hd s = CHR ''-'');
          u = (if neg then tl s else s);
          ds = (if u \<noteq> [] \<and> hd u = CHR ''0'' then ''0'' else takeWhile is_ascii_digit u);
          r = drop (length ds) u
      in if ds = [] then None
         else if has_fraction r \<or> has_exponent r then None
         else Some (JInt (if neg then - digits_val ds else digits_val ds), r))"

fun dict_set :: "(string \<times> json) list \<Rightarrow> string \<Rightarrow> json \<Rightarrow> (string \<times> json) list" where
  "dict_set [] k v = [(k, v)]"
| "dict_set ((k', v') # kvs) k v =
     (if k' = k then (k, v) # kvs else (k', v') # dict_set kvs k v)"

fun scan_once :: "nat \<Rightarrow> string \<Rightarrow> (json \<times> string) option"
  and scan_items :: "nat \<Rightarrow> string \<Rightarrow> json list \<Rightarrow> (json \<times> string) option"
  and scan_members :: "nat \<Rightarrow> string \<Rightarrow> (string \<times> json) list \<Rightarrow> (json \<times> string) option"
  where
  "scan_once 0 s = None"
| "scan_once (Suc n) s =
     (case s of
        [] \<Rightarrow> None
      | c # cs \<Rightarrow>
          if c = CHR 0x22 then map_option (\<lambda>(t, r). (JStr t, r)) (scan_string cs)
          else if c = CHR ''{'' then
            (case skip_ws cs of
               [] \<Rightarrow> None
             | d # r \<Rightarrow> if d = CHR ''}'' then Some (JObj [], r) else scan_members n (d # r) [])
          else if c = CHR ''['' then
            (case skip_ws cs of
               [] \<Rightarrow> None
             | d # r \<Rightarrow> if d = CHR '']'' then Some (JArr [], r) else scan_items n (d # r) [])
          else if startswith s ''null'' then Some (JNull, drop 4 s)
          else if startswith s ''true'' then Some (JBool True, drop 4 s)
          else if startswith s ''false'' then Some (JBool False, drop 5 s)
          else if startswith s ''NaN'' then Some (JFloat NaN, drop 3 s)
          else if startswith s ''Infinity'' then Some (JFloat PosInf, drop 8 s)
          else if startswith s ''-Infinity'' then Some (JFloat NegInf, drop 9 s)
          else scan_number s)"
| "scan_items 0 s acc = None"
| "scan_items (Suc n) s acc =
     (case scan_once n s of
        None \<Rightarrow> None
      | Some (v, r) \<Rightarrow>
          (case skip_ws r of
             [] \<Rightarrow> None
           | d # r' \<Rightarrow>
               if d = CHR '']'' then Some (JArr (acc @ [v]), r')
               else if d = CHR '','' then scan_items n (skip_ws r') (acc @ [v])
               else None))"
| "scan_members 0 s acc = None"
| "scan_members (Suc n) s acc =
     (case s of
        [] \<Rightarrow> None
      | q # cs \<Rightarrow>
          if q \<noteq> CHR 0x22 then None
          else
            (case scan_string cs of
               None \<Rightarrow> None
             | Some (k, r) \<Rightarrow>
                 (case skip_ws r of
                    [] \<Rightarrow> None
                  | colon # r' \<Rightarrow>
                      if colon \<noteq> CHR '':'' then None
                      else
                        (case scan_once n (skip_ws r') of
                           None \<Rightarrow> None
                         | Some (v, r'') \<Rightarrow>
                             (case skip_ws r'' of
                                [] \<Rightarrow> None
                              | d # r''' \<Rightarrow>
                                  if d = CHR ''}'' then Some (JObj (dict_set acc k v), r''')
                                  else if d = CHR '','' then
                                    scan_members n (skip_ws r''') (dict_set acc k v)
                                  else None)))))"

definition json_raw_decode :: "string \<Rightarrow> json option" where
  "json_raw_decode s = map_option fst (scan_once (Suc (length s + length s)) s)"

definition json_loads :: "string \<Rightarrow> json option" where
  "json_loads s =
     (case scan_once (Suc (length s + length s)) (skip_ws s) of
        None \<Rightarrow> None
      | Some (v, r) \<Rightarrow> if skip_ws r = [] then Some v else None)"


section \<open>The summarize reducer (summarizer.py, \_parse\_summary\_response)\<close>

text \<open>The dataclasses check no types, so a field holds whatever was decoded.\<close>

record WordStats =
  n_tokens :: json
  n_words :: json
  n_pages :: json
  time_saved :: json
  length_ws :: json

record ResponseMetadata =
  speed :: json
  tokens :: json
  total_time_second :: json
  model :: json
  version :: json
  cost :: json

record SummaryResult =
  output_text :: json
  markdown :: json
  status :: json
  word_stats :: WordStats
  response_metadata :: ResponseMetadata
  elapsed_seconds :: json
  title :: json

text \<open>The first loop: the first line whose decoded \<^verbatim>\<open>type\<close> is \<^verbatim>\<open>"final"\<close>.\<close>

fun find_final :: "(string \<Rightarrow> json option) \<Rightarrow> KagiStreamLine list \<Rightarrow> error + json option" where
  "find_final loads [] = Inr None"
| "find_final loads (line # lines) =
     (case loads (payload line) of
        None \<Rightarrow> Inl JSONDecodeError
      | Some d \<Rightarrow>
          (case py_get d ''type'' JNull of
             Inl e \<Rightarrow> Inl e
           | Inr ty \<Rightarrow> if py_eq ty (JStr ''final'') then Inr (Some d)
                       else find_final loads lines))"

text \<open>The second loop, over \<^verbatim>\<open>reversed(lines)\<close>: the first line whose decoded
  \<^verbatim>\<open>output_data.status\<close> is \<^verbatim>\<open>"completed"\<close>.\<close>

fun find_completed :: "(string \<Rightarrow> json option) \<Rightarrow> KagiStreamLine list \<Rightarrow> error + json option" where
  "find_completed loads [] = Inr None"
| "find_completed loads (line # lines) =
     (case loads (payload line) of
        None \<Rightarrow> Inl JSONDecodeError
      | Some d \<Rightarrow>
          (case and_then (py_get d ''output_data'' (JObj []))
                         (\<lambda>od. py_get od ''status'' JNull) of
             Inl e \<Rightarrow> Inl e
           | Inr st \<Rightarrow> if py_eq st (JStr ''completed'') then Inr (Some d)
                       else find_completed loads lines))"

text \<open>\<^verbatim>\<open>json.loads(lines[-1].payload)\<close>\<close>

definition load_last :: "(string \<Rightarrow> json option) \<Rightarrow> KagiStreamLine list \<Rightarrow> error + json" where
  "load_last loads lines =
     (if lines = [] then Inl IndexError
      else (case loads (payload (last lines)) of
              None \<Rightarrow> Inl JSONDecodeError
            | Some d \<Rightarrow> Inr d))"

text \<open>The end of the function: the result built from \<^verbatim>\<open>final_data\<close>.\<close>

definition summary_result :: "json \<Rightarrow> error + SummaryResult" where
  "summary_result final_data =
     and_then (py_get final_data ''output_data'' (JObj [])) (\<lambda>od.
     and_then (py_get od ''word_stats'' (JObj [])) (\<lambda>ws_raw.
     and_then (py_get od ''response_metadata'' (JObj [])) (\<lambda>rm_raw.
     and_then (py_get final_data ''output_text'' (JStr [])) (\<lambda>f_output_text.
     and_then (py_get od ''markdown'' (JStr [])) (\<lambda>f_markdown.
     and_then (py_get od ''status'' (JStr [])) (\<lambda>f_status.
     and_then (py_get ws_raw ''n_tokens'' (JInt 0)) (\<lambda>f_n_tokens.
     and_then (py_get ws_raw ''n_words'' (JInt 0)) (\<lambda>f_n_words.
     and_then (py_get ws_raw ''n_pages'' (JInt 0)) (\<lambda>f_n_pages.
     and_then (py_get ws_raw ''time_saved'' (JInt 0)) (\<lambda>f_time_saved.
     and_then (py_get ws_raw ''length'' JNull) (\<lambda>f_length.
     and_then (py_get rm_raw ''speed'' JNull) (\<lambda>f_speed.
     and_then (py_get rm_raw ''tokens'' (JInt 0)) (\<lambda>f_tokens.
     and_then (py_get rm_raw ''total_time_second'' (JInt 0)) (\<lambda>f_total_time_second.
     and_then (py_get rm_raw ''model'' (JStr [])) (\<lambda>f_model.
     and_then (py_get rm_raw ''version'' (JStr [])) (\<lambda>f_version.
     and_then (py_get rm_raw ''cost'' (JInt 0)) (\<lambda>f_cost.
     and_then (py_get od ''elapsed_seconds'' JNull) (\<lambda>f_elapsed_seconds.
     and_then (py_get od ''title'' (JStr [])) (\<lambda>f_title.
       Inr \<lparr>output_text = f_output_text,
            markdown = f_markdown,
            status = f_status,
            word_stats = \<lparr>n_tokens = f_n_tokens, n_words = f_n_words, n_pages = f_n_pages,
                           time_saved = f_time_saved, length_ws = f_length\<rparr>,
            response_metadata = \<lparr>speed = f_speed, tokens = f_tokens,
                                  total_time_second = f_total_time_second, model = f_model,
                                  version = f_version, cost = f_cost\<rparr>,
            elapsed_seconds = f_elapsed_seconds,
            title = f_title\<rparr>)))))))))))))))))))"

definition parse_summary_response :: "(string \<Rightarrow> json option) \<Rightarrow> string \<Rightarrow> error + SummaryResult" where
  "parse_summary_response loads response_text =
     (let lines = parse_kagi_stream_lines response_text in
      and_then (find_final loads lines) (\<lambda>final_data.
      and_then (case final_data of
                  None \<Rightarrow> find_completed loads (rev lines)
                | Some d \<Rightarrow> Inr (Some d)) (\<lambda>final_data.
      and_then (case final_data of
                  None \<Rightarrow> load_last loads lines
                | Some d \<Rightarrow> Inr d) summary_result)))"


subsection \<open>The frame that the reducer is to return\<close>

text \<open>
  Over the decoded frames: the frame of type \<^verbatim>\<open>final\<close> if there is one, else the last
  frame whose \<^verbatim>\<open>output_data.status\<close> is \<^verbatim>\<open>completed\<close>, else the last frame.
\<close>

definition is_dict :: "json \<Rightarrow> bool" where
  "is_dict d = (case d of JObj kvs \<Rightarrow> True | _ \<Rightarrow> False)"

definition field_or :: "json \<Rightarrow> string \<Rightarrow> json \<Rightarrow> json" where
  "field_or d k dflt = (case py_get d k dflt of Inr v \<Rightarrow> v | Inl e \<Rightarrow> dflt)"

definition is_final :: "json \<Rightarrow> bool" where
  "is_final d = (field_or d ''type'' JNull = JStr ''final'')"

definition is_completed :: "json \<Rightarrow> bool" where
  "is_completed d =
     (field_or (field_or d ''output_data'' (JObj [])) ''status'' JNull = JStr ''completed'')"

definition summary_frame :: "json list \<Rightarrow> json" where
  "summary_frame ds =
     (case find is_final ds of
        Some d \<Rightarrow> d
      | None \<Rightarrow> (case find is_completed (rev ds) of
                    Some d \<Rightarrow> d
                  | None \<Rightarrow> last ds))"

text \<open>A decoded frame is a record when it is a dict and its \<^verbatim>\<open>output_data\<close>, if it has
  one, is a dict.\<close>

definition is_record :: "json \<Rightarrow> bool" where
  "is_record d = (is_dict d \<and> is_dict (field_or d ''output_data'' (JObj [])))"

text \<open>Its statistics are records when \<^verbatim>\<open>word_stats\<close> and \<^verbatim>\<open>response_metadata\<close> of
  its \<^verbatim>\<open>output_data\<close>, if they are there, are dicts.\<close>

definition has_record_stats :: "json \<Rightarrow> bool" where
  "has_record_stats d =
     (is_dict (field_or (field_or d ''output_data'' (JObj [])) ''word_stats'' (JObj []))
      \<and> is_dict (field_or (field_or d ''output_data'' (JObj [])) ''response_metadata''
                           (JObj [])))"

text \<open>
  The record of a decoded frame: its \<^verbatim>\<open>output_text\<close> and the fields of its
  \<^verbatim>\<open>output_data\<close>, each with the value that stands for a missing field.
\<close>

definition frame_record :: "json \<Rightarrow> SummaryResult" where
  "frame_record d =
     \<lparr>output_text = field_or d ''output_text'' (JStr []),
      markdown = field_or (field_or d ''output_data'' (JObj [])) ''markdown'' (JStr []),
      status = field_or (field_or d ''output_data'' (JObj [])) ''status'' (JStr []),
      word_stats =
        \<lparr>n_tokens = field_or (field_or (field_or d ''output_data'' (JObj []))
                                       ''word_stats'' (JObj [])) ''n_tokens'' (JInt 0),
         n_words = field_or (field_or (field_or d ''output_data'' (JObj []))
                                      ''word_stats'' (JObj [])) ''n_words'' (JInt 0),
         n_pages = field_or (field_or (field_or d ''output_data'' (JObj []))
                                      ''word_stats'' (JObj [])) ''n_pages'' (JInt 0),
         time_saved = field_or (field_or (field_or d ''output_data'' (JObj []))
                                         ''word_stats'' (JObj [])) ''time_saved'' (JInt 0),
         length_ws = field_or (field_or (field_or d ''output_data'' (JObj []))
                                        ''word_stats'' (JObj [])) ''length'' JNull\<rparr>,
      response_metadata =
        \<lparr>speed = field_or (field_or (field_or d ''output_data'' (JObj []))
                                    ''response_metadata'' (JObj [])) ''speed'' JNull,
         tokens = field_or (field_or (field_or d ''output_data'' (JObj []))
                                     ''response_metadata'' (JObj [])) ''tokens'' (JInt 0),
         total_time_second = field_or (field_or (field_or d ''output_data'' (JObj []))
                                     ''response_metadata'' (JObj [])) ''total_time_second''
                                     (JInt 0),
         model = field_or (field_or (field_or d ''output_data'' (JObj []))
                                    ''response_metadata'' (JObj [])) ''model'' (JStr []),
         version = field_or (field_or (field_or d ''output_data'' (JObj []))
                                      ''response_metadata'' (JObj [])) ''version'' (JStr []),
         cost = field_or (field_or (field_or d ''output_data'' (JObj []))
                                   ''response_metadata'' (JObj [])) ''cost'' (JInt 0)\<rparr>,
      elapsed_seconds = field_or (field_or d ''output_data'' (JObj [])) ''elapsed_seconds'' JNull,
      title = field_or (field_or d ''output_data'' (JObj [])) ''title'' (JStr [])\<rparr>"


section \<open>The assistant reducers (assistant.py)\<close>

text \<open>
  The fields \<^verbatim>\<open>id\<close>, \<^verbatim>\<open>title\<close> and \<^verbatim>\<open>created_at\<close> of the two dataclasses carry the
  prefix of their class here.
\<close>

record AssistantThread =
  thread_id :: json
  thread_title :: json
  thread_created_at :: json
  expires_at :: json
  saved :: json
  shared :: json

record AssistantMessage =
  message_id :: json
  message_created_at :: json
  state :: json
  prompt :: json
  reply :: json
  md :: json

record AssistantResult =
  thread :: AssistantThread
  message :: AssistantMessage

text \<open>\<^verbatim>\<open>_parse_json\<close>: the first JSON value of the stripped payload.\<close>

definition parse_json :: "(string \<Rightarrow> json option) \<Rightarrow> string \<Rightarrow> error + json" where
  "parse_json raw_decode p =
     (case raw_decode (strip p) of None \<Rightarrow> Inl JSONDecodeError | Some obj \<Rightarrow> Inr obj)"

definition make_thread :: "json \<Rightarrow> error + AssistantThread" where
  "make_thread d =
     and_then (py_subscript d ''id'') (\<lambda>f_id.
     and_then (py_subscript d ''title'') (\<lambda>f_title.
     and_then (py_subscript d ''created_at'') (\<lambda>f_created_at.
     and_then (py_get d ''expires_at'' (JStr [])) (\<lambda>f_expires_at.
     and_then (py_get d ''saved'' (JBool False)) (\<lambda>f_saved.
     and_then (py_get d ''shared'' (JBool False)) (\<lambda>f_shared.
       Inr \<lparr>thread_id = f_id, thread_title = f_title, thread_created_at = f_created_at,
            expires_at = f_expires_at, saved = f_saved, shared = f_shared\<rparr>))))))"

definition make_message :: "json \<Rightarrow> error + AssistantMessage" where
  "make_message d =
     and_then (py_subscript d ''id'') (\<lambda>f_id.
     and_then (py_subscript d ''created_at'') (\<lambda>f_created_at.
     and_then (py_subscript d ''state'') (\<lambda>f_state.
     and_then (py_subscript d ''prompt'') (\<lambda>f_prompt.
     and_then (py_get d ''reply'' JNull) (\<lambda>f_reply.
     and_then (py_get d ''md'' JNull) (\<lambda>f_md.
       Inr \<lparr>message_id = f_id, message_created_at = f_created_at, state = f_state,
            prompt = f_prompt, reply = f_reply, md = f_md\<rparr>))))))"

text \<open>The \<^verbatim>\<open>for line in lines\<close> loop of \<^verbatim>\<open>_parse_assistant_response\<close>, with the two
  variables \<^verbatim>\<open>thread\<close> and \<^verbatim>\<open>message\<close>.\<close>

fun assistant_loop ::
  "(string \<Rightarrow> json option) \<Rightarrow> KagiStreamLine list \<Rightarrow>
   AssistantThread option \<Rightarrow> AssistantMessage option \<Rightarrow>
   error + (AssistantThread option \<times> AssistantMessage option)" where
  "assistant_loop raw_decode [] th msg = Inr (th, msg)"
| "assistant_loop raw_decode (line # lines) th msg =
     (if tag line = ''thread.json'' then
        (case and_then (parse_json raw_decode (payload line)) make_thread of
           Inl e \<Rightarrow> Inl e
         | Inr t \<Rightarrow> assistant_loop raw_decode lines (Some t) msg)
      else if tag line = ''new_message.json'' then
        (case and_then (parse_json raw_decode (payload line)) make_message of
           Inl e \<Rightarrow> Inl e
         | Inr m \<Rightarrow> assistant_loop raw_decode lines th (Some m))
      else assistant_loop raw_decode lines th msg)"

definition parse_assistant_response ::
  "(string \<Rightarrow> json option) \<Rightarrow> string \<Rightarrow> error + AssistantResult" where
  "parse_assistant_response raw_decode response_text =
     (case assistant_loop raw_decode (parse_kagi_stream_lines response_text) None None of
        Inl e \<Rightarrow> Inl e
      | Inr (th, msg) \<Rightarrow>
          (case th of
             None \<Rightarrow> Inl (APIError ''No thread.json found in response'' 200 response_text)
           | Some t \<Rightarrow>
               (case msg of
                  None \<Rightarrow>
                    Inl (APIError ''No new_message.json found in response'' 200 response_text)
                | Some m \<Rightarrow> Inr \<lparr>thread = t, message = m\<rparr>)))"

text \<open>
  \<^verbatim>\<open>AssistantClient.prompt_stream\<close> over the status code, the body and the lines that
  the transport delivers: the snapshots it yields, in order, and the exception that
  ends it, if any. \<open>prev_text\<close> is the last snapshot yielded.
\<close>

fun prompt_stream_loop ::
  "(string \<Rightarrow> json option) \<Rightarrow> json \<Rightarrow> string list \<Rightarrow> json list \<times> error option" where
  "prompt_stream_loop raw_decode prev_text [] = ([], None)"
| "prompt_stream_loop raw_decode prev_text (raw_line # rest) =
     (case parse_kagi_stream_line raw_line of
        None \<Rightarrow> prompt_stream_loop raw_decode prev_text rest
      | Some parsed \<Rightarrow>
          if tag parsed \<noteq> ''tokens.json'' then prompt_stream_loop raw_decode prev_text rest
          else
            (case parse_json raw_decode (payload parsed) of
               Inl e \<Rightarrow> prompt_stream_loop raw_decode prev_text rest
             | Inr d \<Rightarrow>
                 (case py_get d ''text'' (JStr []) of
                    Inl e \<Rightarrow> ([], Some e)
                  | Inr full_text \<Rightarrow>
                      if truthy full_text \<and> \<not> py_eq full_text prev_text then
                        (case prompt_stream_loop raw_decode full_text rest of
                           (ys, e) \<Rightarrow> (full_text # ys, e))
                      else prompt_stream_loop raw_decode prev_text rest)))"

definition prompt_stream ::
  "(string \<Rightarrow> json option) \<Rightarrow> int \<Rightarrow> string \<Rightarrow> string list \<Rightarrow> json list \<times> error option" where
  "prompt_stream raw_decode status_code body raw_lines =
     (if status_code \<noteq> 200 then
        ([], Some (APIError (''Assistant request failed: '' @ str_int status_code)
                            status_code body))
      else prompt_stream_loop raw_decode (JStr []) raw_lines)"

subsection \<open>The lines of a stream, as the streaming variant sees them\<close>

text \<open>
  A line is skipped when it is no tag line, when its tag is not \<^verbatim>\<open>tokens.json\<close> or when
  its payload does not decode. It is a snapshot when its payload decodes to a dict whose
  \<^verbatim>\<open>text\<close> is a str, the empty str when the dict has no \<^verbatim>\<open>text\<close>. Anything else, a
  payload that is no dict or a \<^verbatim>\<open>text\<close> that is no str, is no snapshot.
\<close>

datatype line_class = Skipped | Snapshot string | NoSnapshot

definition classify :: "(string \<Rightarrow> json option) \<Rightarrow> string \<Rightarrow> line_class" where
  "classify raw_decode raw_line =
     (case parse_kagi_stream_line raw_line of
        None \<Rightarrow> Skipped
      | Some parsed \<Rightarrow>
          if tag parsed \<noteq> ''tokens.json'' then Skipped
          else (case raw_decode (strip (payload parsed)) of
                  None \<Rightarrow> Skipped
                | Some (JObj kvs) \<Rightarrow>
                    (case map_of kvs ''text'' of
                       None \<Rightarrow> Snapshot []
                     | Some (JStr t) \<Rightarrow> Snapshot t
                     | Some _ \<Rightarrow> NoSnapshot)
                | Some _ \<Rightarrow> NoSnapshot))"

text \<open>The texts of the snapshots of a stream, in arrival order.\<close>

fun snapshots :: "line_class list \<Rightarrow> string list" where
  "snapshots [] = []"
| "snapshots (Snapshot t # cs) = t # snapshots cs"
| "snapshots (_ # cs) = snapshots cs"


subsection \<open>Well-formed assistant frames\<close>









section \<open>The proofread reducer (proofread.py, \_parse\_proofread\_response)\<close>

record DetectedLanguage =
  iso :: json
  label :: json

record ToneAnalysis =
  overall_tone :: json
  description :: json

record WritingStatistics =
  word_count :: json
  character_count :: json
  character_count_no_spaces :: json
  paragraph_count :: json
  sentence_count :: json
  average_words_per_sentence :: json
  average_characters_per_word :: json
  vocabulary_diversity :: json
  reading_time_minutes :: json
  reading_level :: json
  readability_score :: json

record ProofreadAnalysis =
  corrected_text :: json
  changes :: json
  corrections_summary :: json
  tone_analysis :: ToneAnalysis
  writing_statistics :: WritingStatistics

text \<open>The field \<^verbatim>\<open>text\<close> of the dataclass is \<open>result_text\<close> here.\<close>

record ProofreadResult =
  detected_language :: "DetectedLanguage option"
  result_text :: string
  analysis :: "ProofreadAnalysis option"

definition parse_writing_stats :: "json \<Rightarrow> error + WritingStatistics" where
  "parse_writing_stats raw =
     and_then (py_subscript raw ''word_count'') (\<lambda>f1.
     and_then (py_subscript raw ''character_count'') (\<lambda>f2.
     and_then (py_subscript raw ''character_count_no_spaces'') (\<lambda>f3.
     and_then (py_subscript raw ''paragraph_count'') (\<lambda>f4.
     and_then (py_subscript raw ''sentence_count'') (\<lambda>f5.
     and_then (py_subscript raw ''average_words_per_sentence'') (\<lambda>f6.
     and_then (py_subscript raw ''average_characters_per_word'') (\<lambda>f7.
     and_then (py_subscript raw ''vocabulary_diversity'') (\<lambda>f8.
     and_then (py_subscript raw ''reading_time_minutes'') (\<lambda>f9.
     and_then (py_subscript raw ''reading_level'') (\<lambda>f10.
     and_then (py_subscript raw ''readability_score'') (\<lambda>f11.
       Inr \<lparr>word_count = f1, character_count = f2, character_count_no_spaces = f3,
            paragraph_count = f4, sentence_count = f5, average_words_per_sentence = f6,
            average_characters_per_word = f7, vocabulary_diversity = f8,
            reading_time_minutes = f9, reading_level = f10,
            readability_score = f11\<rparr>)))))))))))"

definition make_language :: "json \<Rightarrow> error + DetectedLanguage" where
  "make_language d =
     and_then (py_subscript d ''detected_language'') (\<lambda>dl.
     and_then (py_subscript dl ''iso'') (\<lambda>f_iso.
     and_then (py_subscript dl ''label'') (\<lambda>f_label.
       Inr \<lparr>iso = f_iso, label = f_label\<rparr>)))"

definition make_analysis :: "json \<Rightarrow> error + ProofreadAnalysis" where
  "make_analysis d =
     and_then (py_subscript d ''analysis'') (\<lambda>a.
     and_then (py_subscript a ''tone_analysis'') (\<lambda>ta.
     and_then (py_subscript a ''writing_statistics'') (\<lambda>ws.
     and_then (py_subscript a ''corrected_text'') (\<lambda>f_corrected_text.
     and_then (py_get a ''changes'' (JArr [])) (\<lambda>f_changes.
     and_then (py_subscript a ''corrections_summary'') (\<lambda>f_corrections_summary.
     and_then (py_subscript ta ''overall_tone'') (\<lambda>f_overall_tone.
     and_then (py_subscript ta ''description'') (\<lambda>f_description.
     and_then (parse_writing_stats ws) (\<lambda>f_stats.
       Inr \<lparr>corrected_text = f_corrected_text, changes = f_changes,
            corrections_summary = f_corrections_summary,
            tone_analysis = \<lparr>overall_tone = f_overall_tone, description = f_description\<rparr>,
            writing_statistics = f_stats\<rparr>)))))))))"

text \<open>\<^verbatim>\<open>"".join(text_parts)\<close>: a TypeError unless every part is a str.\<close>

fun join_parts :: "json list \<Rightarrow> error + string" where
  "join_parts [] = Inr []"
| "join_parts (JStr s # ps) = and_then (join_parts ps) (\<lambda>r. Inr (s @ r))"
| "join_parts (_ # ps) = Inl TypeError"

text \<open>The \<^verbatim>\<open>for event in events\<close> loop, with its three variables.\<close>

fun proofread_loop ::
  "(string \<Rightarrow> json option) \<Rightarrow> SSEEvent list \<Rightarrow>
   DetectedLanguage option \<Rightarrow> json list \<Rightarrow> ProofreadAnalysis option \<Rightarrow>
   error + (DetectedLanguage option \<times> json list \<times> ProofreadAnalysis option)" where
  "proofread_loop loads [] dl text_parts an = Inr (dl, text_parts, an)"
| "proofread_loop loads (ev # evs) dl text_parts an =
     (case loads (data ev) of
        None \<Rightarrow> Inl JSONDecodeError
      | Some d \<Rightarrow>
          (case py_contains ''detected_language'' d of
             Inl e \<Rightarrow> Inl e
           | Inr True \<Rightarrow>
               (case make_language d of
                  Inl e \<Rightarrow> Inl e
                | Inr l \<Rightarrow> proofread_loop loads evs (Some l) text_parts an)
           | Inr False \<Rightarrow>
               (case py_contains ''delta'' d of
                  Inl e \<Rightarrow> Inl e
                | Inr True \<Rightarrow>
                    (case py_subscript d ''delta'' of
                       Inl e \<Rightarrow> Inl e
                     | Inr x \<Rightarrow> proofread_loop loads evs dl (text_parts @ [x]) an)
                | Inr False \<Rightarrow>
                    (case py_contains ''analysis'' d of
                       Inl e \<Rightarrow> Inl e
                     | Inr True \<Rightarrow>
                         (case make_analysis d of
                            Inl e \<Rightarrow> Inl e
                          | Inr a \<Rightarrow> proofread_loop loads evs dl text_parts (Some a))
                     | Inr False \<Rightarrow> proofread_loop loads evs dl text_parts an))))"

definition parse_proofread_response ::
  "(string \<Rightarrow> json option) \<Rightarrow> string \<Rightarrow> error + ProofreadResult" where
  "parse_proofread_response loads response_text =
     and_then (proofread_loop loads (parse_sse_events response_text) None [] None)
       (\<lambda>(dl, text_parts, an).
          and_then (join_parts text_parts)
            (\<lambda>t. Inr \<lparr>detected_language = dl, result_text = t, analysis = an\<rparr>))"


section \<open>Search pagination (search.py, SearchClient.search\_all)\<close>

record SearchInfo =
  share_url :: string
  curr_batch :: int
  curr_piece :: int
  next_batch :: int
  next_piece :: int

text \<open>The items and the domain records play no part in the pagination; their types are
  left open.\<close>

record ('item, 'domain) SearchResult =
  search_html :: string
  info :: SearchInfo
  items :: "'item list"
  domain_infos :: "'domain list"

text \<open>
  \<^verbatim>\<open>search_all\<close> over an injected \<open>search\<close>, which takes the batch (\<open>None\<close> for the first
  page) and returns a page or raises. The generator is modelled by the list of the pages
  it yields and the exception that ends it, if any; it has no value when it never ends.
\<close>

partial_function (option) search_all_loop ::
  "(int option \<Rightarrow> error + ('i, 'd) SearchResult) \<Rightarrow> ('i, 'd) SearchResult \<Rightarrow>
   ('i, 'd) SearchResult list \<Rightarrow> (('i, 'd) SearchResult list \<times> error option) option" where
  "search_all_loop search result yielded =
     (if next_batch (info result) > 0 then
        (case search (Some (next_batch (info result))) of
           Inl e \<Rightarrow> Some (yielded, Some e)
         | Inr r \<Rightarrow> search_all_loop search r (yielded @ [r]))
      else Some (yielded, None))"

definition search_all ::
  "(int option \<Rightarrow> error + ('i, 'd) SearchResult) \<Rightarrow>
   (('i, 'd) SearchResult list \<times> error option) option" where
  "search_all search =
     (case search None of
        Inl e \<Rightarrow> Some ([], Some e)
      | Inr result \<Rightarrow> search_all_loop search result [result])"

text \<open>A list of pages in which each page but the last asks for the next one and the
  next one is what the search returns for that batch.\<close>

fun page_chain ::
  "(int option \<Rightarrow> error + ('i, 'd) SearchResult) \<Rightarrow> ('i, 'd) SearchResult list \<Rightarrow> bool" where
  "page_chain search [] = True"
| "page_chain search [r] = True"
| "page_chain search (r # r' # rs) =
     (0 < next_batch (info r) \<and> search (Some (next_batch (info r))) = Inr r'
      \<and> page_chain search (r' # rs))"


subsection \<open>Two and three pages of search results\<close>

definition page :: "string \<Rightarrow> int \<Rightarrow> int \<Rightarrow> (unit, unit) SearchResult" where
  "page html this_batch following_batch =
     \<lparr>search_html = html,
      info = \<lparr>share_url = [], curr_batch = this_batch, curr_piece = 1,
               next_batch = following_batch, next_piece = 1\<rparr>,
      items = [], domain_infos = []\<rparr>"

definition two_pages :: "int option \<Rightarrow> error + (unit, unit) SearchResult" where
  "two_pages batch =
     (if batch = None then Inr (page ''first'' 1 2)
      else if batch = Some 2 then Inr (page ''second'' 2 (- 1))
      else Inl (APIError ''Search request failed: 404'' 404 []))"

definition three_pages :: "int option \<Rightarrow> error + (unit, unit) SearchResult" where
  "three_pages batch =
     (if batch = None then Inr (page ''first'' 1 2)
      else if batch = Some 2 then Inr (page ''second'' 2 3)
      else if batch = Some 3 then Inr (page ''third'' 3 (- 1))
      else Inl (APIError ''Search request failed: 404'' 404 []))"

text \<open>A search whose second page cannot be fetched.\<close>

definition broken_pages :: "int option \<Rightarrow> error + (unit, unit) SearchResult" where
  "broken_pages batch =
     (if batch = None then Inr (page ''first'' 1 2)
      else Inl (APIError ''Search request failed: 500'' 500 []))"


text \<open>What the pagination loop returns when it starts from a chain of pages.\<close>

definition chain_result ::
  "(int option \<Rightarrow> error + ('i, 'd) SearchResult) \<Rightarrow> ('i, 'd) SearchResult \<Rightarrow>
   ('i, 'd) SearchResult list \<Rightarrow> ('i, 'd) SearchResult list \<times> error option \<Rightarrow> bool" where
  "chain_result search result yielded y =
     (yielded \<noteq> [] \<longrightarrow> last yielded = result \<longrightarrow> page_chain search yielded \<longrightarrow>
      fst y \<noteq> [] \<and> hd (fst y) = hd yielded \<and> page_chain search (fst y)
      \<and> (case snd y of
           None \<Rightarrow> \<not> 0 < next_batch (info (last (fst y)))
         | Some err \<Rightarrow> 0 < next_batch (info (last (fst y)))
                       \<and> search (Some (next_batch (info (last (fst y))))) = Inl err))"


section \<open>Properties of the string primitives\<close>

lemma split_nl_not_Nil: "split_nl s \<noteq> []"
  by (induction s) (auto split: list.splits)

lemma blocks_not_Nil: "blocks ls \<noteq> []"
  by (induction ls) (auto split: list.splits)

lemma blocks_append_blank:
  "[] \<notin> set p \<Longrightarrow> blocks (p @ [] # ls) = p # blocks ls"
  by (induction p) auto

lemma blocks_no_blank: "[] \<notin> set p \<Longrightarrow> blocks p = [p]"
  by (induction p) auto

lemma data_not_event: "startswith l ''data:'' \<Longrightarrow> \<not> startswith l ''event:''"
  by (cases l) (auto simp: startswith_def)

lemma id_not_event: "startswith l ''id:'' \<Longrightarrow> \<not> startswith l ''event:''"
  by (cases l) (auto simp: startswith_def)

lemma id_not_data: "startswith l ''id:'' \<Longrightarrow> \<not> startswith l ''data:''"
  by (cases l) (auto simp: startswith_def)


section \<open>Properties of the SSE framer\<close>

lemma last_field_snoc: "last_field n (xs @ [l]) = Some (strip (drop n l))"
  by (cases xs) (simp_all add: last_field_def)

lemma data_parts_snoc:
  "data_parts (p @ [l]) =
     (if is_data_line l then data_parts p @ [strip (drop (length ''data:'') l)]
      else data_parts p)"
  by (simp add: data_parts_def)

lemma sse_step_nonblank:
  "l \<noteq> [] \<Longrightarrow>
   sse_step \<lparr>events = es, current_event = ce, current_data = cd, current_id = ci\<rparr> l =
     \<lparr>events = es,
      current_event =
        (if is_event_line l then Some (strip (drop (length ''event:'') l)) else ce),
      current_data =
        (if is_data_line l then cd @ [strip (drop (length ''data:'') l)] else cd),
      current_id =
        (if is_id_line l then Some (strip (drop (length ''id:'') l)) else ci)\<rparr>"
  using data_not_event [of l] id_not_event [of l] id_not_data [of l]
  by (auto simp: sse_step_def is_event_line_def is_data_line_def is_id_line_def)

lemma sse_fold_block:
  "[] \<notin> set p \<Longrightarrow>
   foldl sse_step (sse_init es) p =
     \<lparr>events = es,
      current_event = last_field (length ''event:'') (filter is_event_line p),
      current_data = data_parts p,
      current_id = last_field (length ''id:'') (filter is_id_line p)\<rparr>"
proof (induction p rule: rev_induct)
  case Nil
  show ?case by (simp add: sse_init_def last_field_def data_parts_def)
next
  case (snoc l p)
  then have l: "l \<noteq> []" and p: "[] \<notin> set p" by auto
  show ?case
    by (simp add: snoc.IH [OF p] sse_step_nonblank [OF l] last_field_snoc data_parts_snoc)
qed

lemma sse_fold_blocks:
  "[] \<notin> set p \<Longrightarrow>
   events (foldl sse_step (foldl sse_step (sse_init es) p) ls) =
     es @ map block_frame (filter (\<lambda>b. data_parts b \<noteq> []) (butlast (blocks (p @ ls))))"
proof (induction ls arbitrary: p es)
  case Nil
  then show ?case by (simp add: sse_fold_block blocks_no_blank)
next
  case (Cons l ls)
  show ?case
  proof (cases "l = []")
    case True
    have "sse_step (foldl sse_step (sse_init es) p) [] =
            sse_init (if data_parts p \<noteq> [] then es @ [block_frame p] else es)"
      using Cons.prems by (simp add: sse_fold_block sse_step_def block_frame_def)
    moreover have "foldl sse_step (sse_init es') [] = sse_init es'" for es'
      by simp
    ultimately show ?thesis
      using True Cons.prems Cons.IH [of "[]"] blocks_not_Nil [of ls]
      by (simp add: blocks_append_blank)
  next
    case False
    then have "[] \<notin> set (p @ [l])" using Cons.prems by auto
    from Cons.IH [OF this] show ?thesis by simp
  qed
qed

lemma parse_sse_events_blocks:
  "parse_sse_events text =
     map block_frame (filter (\<lambda>b. data_parts b \<noteq> []) (closed_blocks text))"
  using sse_fold_blocks [of "[]" "[]" "split_nl text"]
  by (simp add: parse_sse_events_def closed_blocks_def)

lemma split_nl_append: "split_nl (a @ nl # b) = split_nl a @ split_nl b"
  by (induction a) (auto split: list.splits simp: split_nl_not_Nil)

lemma events_fold_nonblank: "[] \<notin> set ls \<Longrightarrow> events (foldl sse_step st ls) = events st"
  by (induction ls arbitrary: st) (auto simp: sse_step_def)

lemma has_data_parts: "(data_parts b \<noteq> []) = has_data_line b"
  by (simp add: data_parts_def has_data_line_def)

lemma foldl_blank:
  "foldl sse_step st (ls @ [[]]) = sse_init (events (foldl sse_step st (ls @ [[]])))"
  by (simp add: sse_step_def sse_init_def)


subsection \<open>Frames and blank lines\<close>

text \<open>
  Claim C7. The frames are, in order, those of the blocks that an empty line closes and
  that hold at least one \<^verbatim>\<open>data:\<close> line: one frame at each such empty line, none
  anywhere else. What follows the last empty line is never emitted: after a text that
  ends in a blank line, lines with no empty line among them change nothing.
\<close>

theorem sse_frame_per_closed_block:
  "parse_sse_events text = map block_frame (filter has_data_line (closed_blocks text))
   \<and> ([] \<notin> set (split_nl t) \<longrightarrow>
        parse_sse_events (text @ nl # nl # t) = parse_sse_events (text @ [nl, nl]))"
proof
  show "parse_sse_events text = map block_frame (filter has_data_line (closed_blocks text))"
    using parse_sse_events_blocks [of "text"] by (simp add: has_data_parts)
next
  show "[] \<notin> set (split_nl t) \<longrightarrow>
        parse_sse_events (text @ nl # nl # t) = parse_sse_events (text @ [nl, nl])"
  proof
    assume t: "[] \<notin> set (split_nl t)"
    let ?st = "foldl sse_step (sse_init []) (split_nl text @ [[]])"
    have a: "split_nl (text @ nl # nl # t) = (split_nl text @ [[]]) @ split_nl t"
      using split_nl_append [of "text" "nl # t"] by simp
    have b: "split_nl (text @ [nl, nl]) = (split_nl text @ [[]]) @ [[]]"
      using split_nl_append [of "text" "[nl]"] by simp
    have c: "sse_step ?st [] = sse_init (events ?st)"
      using foldl_blank [of "sse_init []" "split_nl text"]
      by (simp add: sse_step_def sse_init_def)
    show "parse_sse_events (text @ nl # nl # t) = parse_sse_events (text @ [nl, nl])"
      unfolding parse_sse_events_def a b foldl_append
      using events_fold_nonblank [OF t, of ?st] c by (simp add: sse_init_def)
  qed
qed

theorem sse_frame_per_closed_block_witness:
  "[] \<notin> set (split_nl ''id: 7'')
   \<and> parse_sse_events (''data: a'' @ nl # nl # ''id: 7'') =
       parse_sse_events (''data: a'' @ [nl, nl])
   \<and> parse_sse_events (''data: a'' @ nl # nl # ''id: 7'') =
       [\<lparr>event = None, data = ''a'', id_val = None\<rparr>]"
  using sse_frame_per_closed_block [of "''data: a''" "''id: 7''"]
  by (simp add: parse_sse_events_def nl_def sse_step_def sse_init_def startswith_def
      strip_def is_space_def)


subsection \<open>The data field\<close>

text \<open>
  Claim C4, as stated: each \<^verbatim>\<open>data:\<close> line contributes its content with exactly one
  leading space removed. It fails on a line with two leading spaces and a trailing one:
  the framer removes them all.
\<close>

theorem sse_data_one_space_counterexample:
  "map data (parse_sse_events ''data:  a \<newline>\<newline>'') \<noteq>
   map (\<lambda>b. join [nl] (data_parts_one_space b))
       (filter has_data_line (closed_blocks ''data:  a \<newline>\<newline>''))"
  by (simp add: parse_sse_events_def closed_blocks_def nl_def sse_step_def sse_init_def
      startswith_def has_data_line_def is_data_line_def data_parts_one_space_def
      strip_one_space_def strip_def is_space_def)

text \<open>
  Claim C4, amended: each \<^verbatim>\<open>data:\<close> line contributes its content with all leading and
  trailing whitespace removed, and the data field of an emitted frame is these
  contributions joined by a newline, in line order.
\<close>

theorem sse_data_stripped_joined:
  "map data (parse_sse_events text) =
   map (\<lambda>b. join [nl] (data_parts b)) (filter has_data_line (closed_blocks text))"
  using parse_sse_events_blocks [of "text"]
  by (simp add: has_data_parts block_frame_def comp_def)

subsection \<open>Reframing a serialized frame\<close>

lemma split_nl_no_nl: "nl \<notin> set s \<Longrightarrow> split_nl s = [s]"
  by (induction s) auto

lemma split_nl_lines: "l \<in> set (split_nl s) \<Longrightarrow> nl \<notin> set l"
  by (induction s arbitrary: l) (auto split: list.splits if_splits)

lemma split_nl_unlines:
  "\<forall>l \<in> set ls. nl \<notin> set l \<Longrightarrow>
   split_nl (concat (map (\<lambda>l. l @ [nl]) ls) @ r) = ls @ split_nl r"
proof (induction ls)
  case Nil
  show ?case by simp
next
  case (Cons l ls)
  have "split_nl (l @ nl # (concat (map (\<lambda>l. l @ [nl]) ls) @ r)) =
          split_nl l @ split_nl (concat (map (\<lambda>l. l @ [nl]) ls) @ r)"
    by (rule split_nl_append)
  with Cons show ?case by (simp add: split_nl_no_nl)
qed

lemma split_nl_join:
  "ps \<noteq> [] \<Longrightarrow> \<forall>p \<in> set ps. nl \<notin> set p \<Longrightarrow> split_nl (join [nl] ps) = ps"
proof (induction ps rule: induct_list012)
  case (3 x y ys)
  have "split_nl (x @ nl # join [nl] (y # ys)) = split_nl x @ split_nl (join [nl] (y # ys))"
    by (rule split_nl_append)
  with 3 show ?case by (simp add: split_nl_no_nl)
qed (simp_all add: split_nl_no_nl)

lemma set_strip: "set (strip s) \<subseteq> set s"
proof -
  have "set (dropWhile P xs) \<subseteq> set xs" for P and xs :: string
    by (metis set_dropWhileD subsetI)
  then show ?thesis unfolding strip_def
    by (metis set_rev subset_trans)
qed

lemma dropWhile_keep: "xs = [] \<or> \<not> P (hd xs) \<Longrightarrow> dropWhile P xs = xs"
  by (cases xs) auto

lemma last_dropWhile: "dropWhile P xs \<noteq> [] \<Longrightarrow> last (dropWhile P xs) = last xs"
  by (induction xs) (auto split: if_splits)

lemma clean_strip: "clean (strip s)"
proof -
  let ?d = "dropWhile is_space s"
  let ?r = "dropWhile is_space (rev ?d)"
  show ?thesis
  proof (cases "?r = []")
    case True
    then show ?thesis by (simp add: clean_def strip_def)
  next
    case False
    have d: "?d \<noteq> []"
    proof
      assume "?d = []"
      then have "?r = []" by (metis dropWhile.simps(1) rev.simps(1))
      with False show False by (rule notE)
    qed
    have "\<not> is_space (hd ?r)" using False by (rule hd_dropWhile)
    moreover have "last ?r = hd ?d"
      using False d by (simp add: last_dropWhile last_rev)
    moreover have "\<not> is_space (hd ?d)" using d by (rule hd_dropWhile)
    ultimately show ?thesis
      using False by (simp add: clean_def strip_def hd_rev last_rev)
  qed
qed

lemma strip_clean: "clean t \<Longrightarrow> strip t = t"
proof (cases "t = []")
  case True
  then show ?thesis by (simp add: strip_def)
next
  case False
  assume "clean t"
  with False have h: "\<not> is_space (hd t)" and l: "\<not> is_space (last t)"
    by (auto simp: clean_def)
  have "dropWhile is_space t = t" using h by (simp add: dropWhile_keep)
  moreover have "dropWhile is_space (rev t) = rev t"
    using l False by (simp add: dropWhile_keep hd_rev)
  ultimately show ?thesis by (simp add: strip_def)
qed

lemma strip_space_clean: "clean t \<Longrightarrow> strip (CHR '' '' # t) = t"
proof -
  assume c: "clean t"
  have "dropWhile is_space (CHR '' '' # t) = dropWhile is_space t"
    by (simp add: is_space_def)
  then have "strip (CHR '' '' # t) = strip t" by (simp add: strip_def)
  with c show ?thesis by (simp add: strip_clean)
qed


lemma join_Cons: "ys \<noteq> [] \<Longrightarrow> join sep (x # ys) = x @ sep @ join sep ys"
  by (cases ys) simp_all

lemma join_split_nl: "join [nl] (split_nl s) = s"
proof (induction s)
  case Nil
  show ?case by simp
next
  case (Cons c cs)
  obtain l ls where sp: "split_nl cs = l # ls"
    using split_nl_not_Nil [of cs] by (cases "split_nl cs") auto
  show ?case
  proof (cases "c = nl")
    case True
    with Cons show ?thesis by (simp add: join_Cons split_nl_not_Nil)
  next
    case False
    have "join [nl] ((c # l) # ls) = c # join [nl] (l # ls)"
      by (cases ls) simp_all
    with False Cons sp show ?thesis by simp
  qed
qed

lemma blocks_subset_all: "\<forall>b \<in> set (blocks ls). set b \<subseteq> set ls"
proof (induction ls)
  case Nil
  show ?case by simp
next
  case (Cons l ls)
  obtain c cs where c: "blocks ls = c # cs"
    using blocks_not_Nil [of ls] by (cases "blocks ls") auto
  with Cons have "set c \<subseteq> set ls" and "\<forall>b \<in> set cs. set b \<subseteq> set ls" by auto
  then show ?case using c Cons by (cases "l = []") auto
qed

lemma blocks_subset: "b \<in> set (blocks ls) \<Longrightarrow> set b \<subseteq> set ls"
  using blocks_subset_all by blast

lemma last_field_cases:
  "last_field n ls = None \<or> (\<exists>l \<in> set ls. last_field n ls = Some (strip (drop n l)))"
proof (cases "ls = []")
  case True
  then show ?thesis by (simp add: last_field_def)
next
  case False
  then have "last ls \<in> set ls" by simp
  moreover have "last_field n ls = Some (strip (drop n (last ls)))"
    using False by (cases ls) (simp_all add: last_field_def)
  ultimately show ?thesis by blast
qed

lemma strip_drop_ok: "nl \<notin> set l \<Longrightarrow> clean (strip (drop n l)) \<and> nl \<notin> set (strip (drop n l))"
  using set_strip [of "drop n l"] set_drop_subset [of n l] by (auto simp: clean_strip)

lemma block_frame_normal:
  assumes b: "\<forall>l \<in> set b. nl \<notin> set l" and d: "data_parts b \<noteq> []"
  shows "sse_normal (block_frame b)"
proof -
  have f: "case last_field n (filter P b) of None \<Rightarrow> True | Some e \<Rightarrow> clean e \<and> nl \<notin> set e"
    for n P
    using last_field_cases [of n "filter P b"] b strip_drop_ok by (auto split: option.splits)
  have p: "\<forall>p \<in> set (data_parts b). clean p \<and> nl \<notin> set p"
    using b strip_drop_ok by (auto simp: data_parts_def)
  then have "split_nl (join [nl] (data_parts b)) = data_parts b"
    using d by (simp add: split_nl_join)
  with p have "list_all clean (split_nl (data (block_frame b)))"
    by (simp add: block_frame_def list_all_iff)
  with f show ?thesis by (simp add: sse_normal_def block_frame_def)
qed

lemma parsed_normal:
  assumes "f \<in> set (parse_sse_events text)"
  shows "sse_normal f"
proof -
  from assms obtain b where b: "b \<in> set (closed_blocks text)" and d: "data_parts b \<noteq> []"
    and f: "f = block_frame b"
    by (auto simp: parse_sse_events_blocks)
  from b have "b \<in> set (blocks (split_nl text))"
    unfolding closed_blocks_def by (rule in_set_butlastD)
  then have "set b \<subseteq> set (split_nl text)" by (rule blocks_subset)
  then have "\<forall>l \<in> set b. nl \<notin> set l" using split_nl_lines by blast
  with d f show ?thesis by (simp add: block_frame_normal)
qed

lemma split_serialize:
  assumes "sse_normal f"
  shows "split_nl (serialize_sse f) = sse_lines f @ [[], []]"
proof -
  have "\<forall>l \<in> set (sse_lines f @ [[]]). nl \<notin> set l"
    using assms split_nl_lines [of _ "data f"]
    by (auto simp: sse_normal_def sse_lines_def nl_def split: option.splits)
  from split_nl_unlines [OF this, of "[]"] show ?thesis
    by (simp add: serialize_sse_def)
qed

lemma sse_lines_nonblank: "[] \<notin> set (sse_lines f)"
  by (auto simp: sse_lines_def split: option.splits)

lemma sse_lines_frame:
  assumes "sse_normal f"
  shows "block_frame (sse_lines f) = f" and "data_parts (sse_lines f) \<noteq> []"
proof -
  have ev: "is_event_line (''event: '' @ e)" "\<not> is_data_line (''event: '' @ e)"
    "\<not> is_id_line (''event: '' @ e)" for e
    by (simp_all add: is_event_line_def is_data_line_def is_id_line_def startswith_def)
  have da: "\<not> is_event_line (''data: '' @ e)" "is_data_line (''data: '' @ e)"
    "\<not> is_id_line (''data: '' @ e)" for e
    by (simp_all add: is_event_line_def is_data_line_def is_id_line_def startswith_def)
  have id: "\<not> is_event_line (''id: '' @ e)" "\<not> is_data_line (''id: '' @ e)"
    "is_id_line (''id: '' @ e)" for e
    by (simp_all add: is_event_line_def is_data_line_def is_id_line_def startswith_def)
  have fe: "filter is_event_line (sse_lines f) =
              (case event f of None \<Rightarrow> [] | Some e \<Rightarrow> [''event: '' @ e])"
    using ev da id by (simp add: sse_lines_def split: option.splits)
  have fi: "filter is_id_line (sse_lines f) =
              (case id_val f of None \<Rightarrow> [] | Some e \<Rightarrow> [''id: '' @ e])"
    using ev da id by (simp add: sse_lines_def split: option.splits)
  have fd: "filter is_data_line (sse_lines f) = map (\<lambda>d. ''data: '' @ d) (split_nl (data f))"
    using ev da id by (simp add: sse_lines_def split: option.splits)
  have "map (\<lambda>d. strip (CHR '' '' # d)) (split_nl (data f)) = split_nl (data f)"
    using assms by (simp add: sse_normal_def list_all_iff strip_space_clean map_idI)
  then have dp: "data_parts (sse_lines f) = split_nl (data f)"
    by (simp add: data_parts_def fd comp_def)
  show "data_parts (sse_lines f) \<noteq> []"
    by (simp add: dp split_nl_not_Nil)
  have "event (block_frame (sse_lines f)) = event f"
    using assms by (simp add: block_frame_def fe last_field_def sse_normal_def strip_space_clean
        split: option.splits)
  moreover have "id_val (block_frame (sse_lines f)) = id_val f"
    using assms by (simp add: block_frame_def fi last_field_def sse_normal_def strip_space_clean
        split: option.splits)
  moreover have "data (block_frame (sse_lines f)) = data f"
    by (simp add: block_frame_def dp join_split_nl)
  ultimately show "block_frame (sse_lines f) = f"
    by (simp add: block_frame_def)
qed

lemma reframe_normal:
  assumes "sse_normal f"
  shows "parse_sse_events (serialize_sse f) = [f]"
proof -
  have "blocks (sse_lines f @ [] # [[]]) = sse_lines f # blocks [[]]"
    using sse_lines_nonblank by (rule blocks_append_blank)
  then have "closed_blocks (serialize_sse f) = [sse_lines f, []]"
    by (simp add: closed_blocks_def split_serialize [OF assms])
  then show ?thesis
    using sse_lines_frame [OF assms]
    by (simp add: parse_sse_events_blocks data_parts_def)
qed

text \<open>
  Claim C9. Every frame that the framer emits, on any input text, is reproduced when it
  is written back as SSE text and framed again: the result is that one frame.
\<close>

theorem sse_reframe_serialized:
  "f \<in> set (parse_sse_events text) \<Longrightarrow> parse_sse_events (serialize_sse f) = [f]"
  by (simp add: parsed_normal reframe_normal)

theorem sse_reframe_serialized_witness:
  "\<lparr>event = Some ''m'', data = ''a'' @ nl # ''b'', id_val = Some ''7''\<rparr>
     \<in> set (parse_sse_events (''event:  m '' @ nl # ''data: a'' @ nl # ''id: 7'' @ nl # ''data:b '' @ [nl, nl]))
   \<and> serialize_sse \<lparr>event = Some ''m'', data = ''a'' @ nl # ''b'', id_val = Some ''7''\<rparr>
      = ''event: m'' @ nl # ''data: a'' @ nl # ''data: b'' @ nl # ''id: 7'' @ [nl, nl]
   \<and> parse_sse_events (serialize_sse \<lparr>event = Some ''m'', data = ''a'' @ nl # ''b'', id_val = Some ''7''\<rparr>)
      = [\<lparr>event = Some ''m'', data = ''a'' @ nl # ''b'', id_val = Some ''7''\<rparr>]"
proof -
  have a: "\<lparr>event = Some ''m'', data = ''a'' @ nl # ''b'', id_val = Some ''7''\<rparr>
     \<in> set (parse_sse_events (''event:  m '' @ nl # ''data: a'' @ nl # ''id: 7'' @ nl # ''data:b '' @ [nl, nl]))"
    by (simp add: parse_sse_events_def nl_def sse_step_def sse_init_def startswith_def
      strip_def is_space_def)
  have b: "serialize_sse \<lparr>event = Some ''m'', data = ''a'' @ nl # ''b'', id_val = Some ''7''\<rparr>
      = ''event: m'' @ nl # ''data: a'' @ nl # ''data: b'' @ nl # ''id: 7'' @ [nl, nl]"
    by (simp add: serialize_sse_def sse_lines_def nl_def)
  from a b sse_reframe_serialized [OF a] show ?thesis by simp
qed

section \<open>Properties of the proprietary framer\<close>

lemma space_not_tag_char: "is_space c \<Longrightarrow> \<not> is_tag_char c"
  by (auto simp: is_space_def is_tag_char_def is_ascii_letter_def is_ascii_digit_def)

lemma strip_Nil_spaces: "strip l = [] \<Longrightarrow> \<forall>c \<in> set l. is_space c"
proof -
  assume "strip l = []"
  then have r: "dropWhile is_space (rev (dropWhile is_space l)) = []"
    by (simp add: strip_def)
  have "dropWhile is_space l = []"
  proof (rule ccontr)
    assume n: "dropWhile is_space l \<noteq> []"
    then have "\<not> is_space (hd (dropWhile is_space l))" by (rule hd_dropWhile)
    moreover have "hd (dropWhile is_space l) \<in> set (rev (dropWhile is_space l))"
      using n by simp
    ultimately show False using r by (auto simp: dropWhile_eq_Nil_conv)
  qed
  then show ?thesis by (simp add: dropWhile_eq_Nil_conv)
qed

lemma blank_not_tag: "strip l = [] \<Longrightarrow> tag_match l = None"
proof -
  assume "strip l = []"
  then have "\<forall>c \<in> set l. \<not> is_tag_char c"
    using strip_Nil_spaces space_not_tag_char by blast
  then have "takeWhile is_tag_char l = []"
    by (cases l) auto
  then show ?thesis by (simp add: tag_match_def)
qed

lemma continuation_loop_eq:
  "continuation_loop ls i parts =
     (parts @ filter (\<lambda>p. strip p \<noteq> []) (takeWhile (\<lambda>x. tag_match x = None) (drop i ls)),
      i + length (takeWhile (\<lambda>x. tag_match x = None) (drop i ls)))"
proof (induction ls i parts rule: continuation_loop.induct)
  case (1 ls i parts)
  show ?case
  proof (cases "i < length ls")
    case False
    then show ?thesis by (subst continuation_loop.simps) simp
  next
    case True
    then have d: "drop i ls = ls ! i # drop (Suc i) ls"
      by (simp add: Cons_nth_drop_Suc)
    show ?thesis
      using True 1 blank_not_tag [of "ls ! i"]
      by (subst continuation_loop.simps) (auto simp: d Let_def)
  qed
qed

lemma kagi_loop_eq: "kagi_loop ls i acc = acc @ map segment_frame (tag_segments (drop i ls))"
proof (induction ls i acc rule: kagi_loop.induct)
  case (1 ls i acc)
  show ?case
  proof (cases "i < length ls")
    case False
    then show ?thesis by (subst kagi_loop.simps) simp
  next
    case True
    then have d: "drop i ls = ls ! i # drop (Suc i) ls"
      by (simp add: Cons_nth_drop_Suc)
    have dw: "dropWhile P (drop (Suc i) ls) =
              drop (Suc i + length (takeWhile P (drop (Suc i) ls))) ls" for P
      by (metis add.commute dropWhile_eq_drop drop_drop)
    have fl: "filter P (r # filter P xs) = filter P (r # xs)"
      for r xs and P :: "string \<Rightarrow> bool"
      by auto
    show ?thesis
      using True 1 blank_not_tag [of "ls ! i"]
      by (subst kagi_loop.simps)
         (auto simp: d dw fl Let_def continuation_loop_eq segment_frame_def split: option.splits)
  qed
qed

lemma parse_kagi_frames:
  "parse_kagi_stream_lines text = map segment_frame (tag_segments (split_nl text))"
  by (simp add: parse_kagi_stream_lines_def kagi_loop_eq)

text \<open>
  Claim C3, as stated: the payload of a frame is the newline-join of the non-blank lines
  that follow its tag line. It fails on the one-line input \<^verbatim>\<open>a:b\<close>: no line follows the
  tag line, and the payload is \<^verbatim>\<open>b\<close>, the rest of the tag line.
\<close>

theorem kagi_payload_following_counterexample:
  "map payload (parse_kagi_stream_lines ''a:b'') \<noteq>
   map following_payload (tag_segments (split_nl ''a:b''))"
  by (simp add: parse_kagi_frames segment_frame_def following_payload_def nl_def
      tag_match_def is_tag_char_def is_tag_start_def is_ascii_letter_def is_ascii_digit_def
      strip_def is_space_def)

text \<open>
  Claim C3, amended: the frames are those of the tag lines, in order, and the payload of
  a frame is the newline-join of the non-blank texts among the rest of its tag line
  after the colon and the lines that follow the tag line, up to but not including the
  next tag line or the end of the input.
\<close>

theorem kagi_payload_rest_and_following:
  "parse_kagi_stream_lines text =
     map (\<lambda>(tg, rest, following).
            \<lparr>tag = tg, payload = join [nl] (filter (\<lambda>p. strip p \<noteq> []) (rest # following))\<rparr>)
         (tag_segments (split_nl text))"
  using parse_kagi_frames [of "text"] by (simp add: segment_frame_def)

section \<open>Properties of the summarize reducer\<close>

lemmas json_eval = json_loads_def json_raw_decode_def skip_ws_def is_json_ws_def unescape_def
  scan_number_def has_fraction_def has_exponent_def digit_val_def digits_val_def
  startswith_def is_ascii_digit_def

lemmas kagi_eval = parse_kagi_frames segment_frame_def nl_def tag_match_def is_tag_char_def
  is_tag_start_def is_ascii_letter_def is_ascii_digit_def strip_def is_space_def

lemma py_eq_str: "py_eq v (JStr s) = (v = JStr s)"
  by (cases v) auto

lemma find_final_decoded:
  "map (\<lambda>l. loads (payload l)) lines = map Some ds \<Longrightarrow> list_all is_dict ds \<Longrightarrow>
   find_final loads lines = Inr (find is_final ds)"
proof (induction lines arbitrary: ds)
  case Nil
  then show ?case by simp
next
  case (Cons l lines)
  then obtain d ds' where ds: "ds = d # ds'" by (cases ds) auto
  with Cons.prems obtain kvs where d: "d = JObj kvs" by (cases d) (auto simp: is_dict_def)
  show ?case
    using Cons ds d
    by (simp add: py_eq_str is_final_def field_or_def)
qed

lemma find_completed_decoded:
  "map (\<lambda>l. loads (payload l)) lines = map Some ds \<Longrightarrow> list_all is_record ds \<Longrightarrow>
   find_completed loads lines = Inr (find is_completed ds)"
proof (induction lines arbitrary: ds)
  case Nil
  then show ?case by simp
next
  case (Cons l lines)
  then obtain d ds' where ds: "ds = d # ds'" by (cases ds) auto
  with Cons.prems obtain kvs where d: "d = JObj kvs" by (cases d) (auto simp: is_dict_def is_record_def)
  from Cons.prems ds d obtain kws where od: "field_or (JObj kvs) ''output_data'' (JObj []) = JObj kws"
    by (cases "field_or (JObj kvs) ''output_data'' (JObj [])") (auto simp: is_dict_def is_record_def)
  then have od': "(case map_of kvs ''output_data'' of None \<Rightarrow> JObj [] | Some v \<Rightarrow> v) = JObj kws"
    by (simp add: field_or_def)
  show ?case
    using Cons ds d od od'
    by (simp add: py_eq_str is_completed_def field_or_def and_then_def)
qed

lemma summary_selected_frame:
  assumes dec: "map (\<lambda>l. loads (payload l)) (parse_kagi_stream_lines text) = map Some ds"
    and rec: "list_all is_record ds"
    and ne: "ds \<noteq> []"
  shows "parse_summary_response loads text = summary_result (summary_frame ds)"
proof -
  let ?lines = "parse_kagi_stream_lines text"
  have dicts: "list_all is_dict ds"
    using rec by (simp add: list_all_iff is_record_def)
  have ff: "find_final loads ?lines = Inr (find is_final ds)"
    using dec dicts by (rule find_final_decoded)
  have "map (\<lambda>l. loads (payload l)) (rev ?lines) = map Some (rev ds)"
    using dec by (simp add: rev_map [symmetric])
  moreover have "list_all is_record (rev ds)" using rec by (simp add: list_all_iff)
  ultimately have fc: "find_completed loads (rev ?lines) = Inr (find is_completed (rev ds))"
    by (rule find_completed_decoded)
  have len: "length ?lines = length ds"
    using dec by (metis length_map)
  then have lne: "?lines \<noteq> []" using ne by auto
  have "loads (payload (last ?lines)) = Some (last ds)"
    using dec lne ne by (metis (no_types, lifting) last_map map_is_Nil_conv)
  then have ll: "load_last loads ?lines = Inr (last ds)"
    using lne by (simp add: load_last_def)
  show ?thesis
    by (simp add: parse_summary_response_def ff fc ll and_then_def summary_frame_def
        split: option.splits)
qed

lemma find_in: "find P xs = Some x \<Longrightarrow> x \<in> set xs"
  by (induction xs) (auto split: if_splits)

lemma summary_frame_in: "ds \<noteq> [] \<Longrightarrow> summary_frame ds \<in> set ds"
  using find_in [of is_final ds] find_in [of is_completed "rev ds"]
  by (auto simp: summary_frame_def split: option.splits)

lemma summary_result_record:
  assumes "is_record d" and "has_record_stats d"
  shows "summary_result d = Inr (frame_record d)"
proof -
  from assms(1) obtain kvs where d: "d = JObj kvs"
    by (cases d) (auto simp: is_record_def is_dict_def)
  let ?od = "field_or d ''output_data'' (JObj [])"
  from assms(1) obtain kod where od: "?od = JObj kod"
    by (cases ?od) (auto simp: is_record_def is_dict_def)
  from assms(2) obtain kws where ws: "field_or ?od ''word_stats'' (JObj []) = JObj kws"
    by (cases "field_or ?od ''word_stats'' (JObj [])") (auto simp: has_record_stats_def is_dict_def)
  from assms(2) obtain krm where rm: "field_or ?od ''response_metadata'' (JObj []) = JObj krm"
    by (cases "field_or ?od ''response_metadata'' (JObj [])")
       (auto simp: has_record_stats_def is_dict_def)
  have od': "(case map_of kvs ''output_data'' of None \<Rightarrow> JObj [] | Some v \<Rightarrow> v) = JObj kod"
    using od by (simp add: d field_or_def)
  have ws': "(case map_of kod ''word_stats'' of None \<Rightarrow> JObj [] | Some v \<Rightarrow> v) = JObj kws"
    using ws unfolding od by (simp add: field_or_def)
  have rm': "(case map_of kod ''response_metadata'' of None \<Rightarrow> JObj [] | Some v \<Rightarrow> v)
               = JObj krm"
    using rm unfolding od by (simp add: field_or_def)
  show ?thesis
    by (simp add: summary_result_def frame_record_def and_then_def field_or_def d od' ws' rm')
qed

text \<open>
  Claim C2, as stated: for every non-empty sequence of decoded frames the reducer returns
  a record. It fails on the one frame \<^verbatim>\<open>update:{"output_data":null}\<close>: the payload
  decodes, and the reducer ends in the AttributeError of \<^verbatim>\<open>None.get\<close>.
\<close>

theorem summary_null_output_data_counterexample:
  \<open>map (\<lambda>l. json_loads (payload l)) (parse_kagi_stream_lines ''update:{"output_data":null}'')
     = [Some (JObj [(''output_data'', JNull)])]
   \<and> parse_summary_response json_loads ''update:{"output_data":null}'' = Inl AttributeError\<close>
proof -
  have lines: \<open>parse_kagi_stream_lines ''update:{"output_data":null}'' =
      [\<lparr>tag = ''update'', payload = ''{"output_data":null}''\<rparr>]\<close>
    by (simp add: kagi_eval)
  have d: \<open>json_loads ''{"output_data":null}'' = Some (JObj [(''output_data'', JNull)])\<close>
    by (simp add: json_eval)
  show ?thesis
    unfolding parse_summary_response_def lines
    by (simp add: d and_then_def)
qed

text \<open>
  Claim C2, amended: when the frames of a text are not empty, every payload decodes to a
  dict whose \<^verbatim>\<open>output_data\<close>, if it is there, is a dict, and the statistics of the
  frame named next are records, the reducer returns the record of the first frame of
  type \<^verbatim>\<open>final\<close> if there is one, else of the last frame whose
  \<^verbatim>\<open>output_data.status\<close> is \<^verbatim>\<open>completed\<close>, else of the last frame: its
  \<^verbatim>\<open>output_text\<close> and the fields of its \<^verbatim>\<open>output_data\<close>. For the frames update, update,
  final this is the record of the final frame.
\<close>

theorem summary_returns_selected_frame:
  assumes dec: "map (\<lambda>l. loads (payload l)) (parse_kagi_stream_lines text) = map Some ds"
    and rec: "list_all is_record ds"
    and ne: "ds \<noteq> []"
    and stats: "has_record_stats (summary_frame ds)"
  shows "parse_summary_response loads text = Inr (frame_record (summary_frame ds))"
proof -
  have "is_record (summary_frame ds)"
    using summary_frame_in [OF ne] rec by (simp add: list_all_iff)
  then have "summary_result (summary_frame ds) = Inr (frame_record (summary_frame ds))"
    using stats by (rule summary_result_record)
  with summary_selected_frame [OF dec rec ne] show ?thesis by simp
qed

theorem summary_returns_selected_frame_witness:
  \<open>parse_summary_response json_loads
     (''update:{"type":"update","output_text":"U"}'' @ nl #
      ''update:{"type":"update","output_data":{"status":"completed"}}'' @ nl #
      ''final:{"type":"final","output_text":"S","output_data":{"title":"T","word_stats":{"n_words":3}}}'' @ [nl])
   = Inr \<lparr>output_text = JStr ''S'', markdown = JStr [], status = JStr [],
          word_stats = \<lparr>n_tokens = JInt 0, n_words = JInt 3, n_pages = JInt 0,
                         time_saved = JInt 0, length_ws = JNull\<rparr>,
          response_metadata = \<lparr>speed = JNull, tokens = JInt 0, total_time_second = JInt 0,
                                model = JStr [], version = JStr [], cost = JInt 0\<rparr>,
          elapsed_seconds = JNull, title = JStr ''T''\<rparr>\<close>
proof -
  let ?t = \<open>''update:{"type":"update","output_text":"U"}'' @ nl #
      ''update:{"type":"update","output_data":{"status":"completed"}}'' @ nl #
      ''final:{"type":"final","output_text":"S","output_data":{"title":"T","word_stats":{"n_words":3}}}'' @ [nl]\<close>
  let ?d1 = "JObj [(''type'', JStr ''update''), (''output_text'', JStr ''U'')]"
  let ?d2 = "JObj [(''type'', JStr ''update''),
                   (''output_data'', JObj [(''status'', JStr ''completed'')])]"
  let ?d3 = "JObj [(''type'', JStr ''final''), (''output_text'', JStr ''S''),
                   (''output_data'', JObj [(''title'', JStr ''T''),
                                           (''word_stats'', JObj [(''n_words'', JInt 3)])])]"
  have lines: \<open>parse_kagi_stream_lines ?t =
    [\<lparr>tag = ''update'', payload = ''{"type":"update","output_text":"U"}''\<rparr>,
     \<lparr>tag = ''update'', payload = ''{"type":"update","output_data":{"status":"completed"}}''\<rparr>,
     \<lparr>tag = ''final'', payload = ''{"type":"final","output_text":"S","output_data":{"title":"T","word_stats":{"n_words":3}}}''\<rparr>]\<close>
    by (simp add: kagi_eval)
  have l1: \<open>json_loads ''{"type":"update","output_text":"U"}'' = Some ?d1\<close>
    by (simp add: json_eval)
  have l2: \<open>json_loads ''{"type":"update","output_data":{"status":"completed"}}'' = Some ?d2\<close>
    by (simp add: json_eval)
  have l3: \<open>json_loads ''{"type":"final","output_text":"S","output_data":{"title":"T","word_stats":{"n_words":3}}}'' = Some ?d3\<close>
    by (simp add: json_eval)
  have dec: "map (\<lambda>l. json_loads (payload l)) (parse_kagi_stream_lines ?t) = map Some [?d1, ?d2, ?d3]"
    by (simp only: lines list.map KagiStreamLine.simps l1 l2 l3)
  have rec: "list_all is_record [?d1, ?d2, ?d3]"
    by (simp add: is_record_def is_dict_def field_or_def)
  have fr: "summary_frame [?d1, ?d2, ?d3] = ?d3"
    by (simp add: summary_frame_def is_final_def field_or_def)
  have st: "has_record_stats (summary_frame [?d1, ?d2, ?d3])"
    unfolding fr by (simp add: has_record_stats_def is_dict_def field_or_def)
  have res: "frame_record ?d3 = \<lparr>output_text = JStr ''S'', markdown = JStr [], status = JStr [],
          word_stats = \<lparr>n_tokens = JInt 0, n_words = JInt 3, n_pages = JInt 0,
                         time_saved = JInt 0, length_ws = JNull\<rparr>,
          response_metadata = \<lparr>speed = JNull, tokens = JInt 0, total_time_second = JInt 0,
                                model = JStr [], version = JStr [], cost = JInt 0\<rparr>,
          elapsed_seconds = JNull, title = JStr ''T''\<rparr>"
    by (simp add: frame_record_def field_or_def)
  from summary_returns_selected_frame [OF dec rec _ st] fr res show ?thesis by simp
qed

text \<open>
  Claim C10. When the framer finds no frame in the text, the reducer ends in the
  IndexError of \<^verbatim>\<open>lines[-1]\<close>, whatever the decoder: it returns no result and raises no
  APIError. So a result needs at least one frame.
\<close>

theorem summary_empty_stream_index_error:
  "parse_kagi_stream_lines text = [] \<Longrightarrow> parse_summary_response loads text = Inl IndexError"
  by (simp add: parse_summary_response_def load_last_def and_then_def)

theorem summary_empty_stream_index_error_witness:
  "parse_kagi_stream_lines [] = []
   \<and> parse_summary_response json_loads [] = Inl IndexError
   \<and> parse_kagi_stream_lines ('' '' @ nl # nl # ''not a tag line'' @ [nl]) = []
   \<and> parse_summary_response json_loads ('' '' @ nl # nl # ''not a tag line'' @ [nl]) = Inl IndexError"
proof -
  have a: "parse_kagi_stream_lines [] = []" by (simp add: kagi_eval)
  have b: "parse_kagi_stream_lines ('' '' @ nl # nl # ''not a tag line'' @ [nl]) = []"
    by (simp add: kagi_eval)
  from a b summary_empty_stream_index_error [OF a, of json_loads]
    summary_empty_stream_index_error [OF b, of json_loads]
  show ?thesis by simp
qed

section \<open>Properties of the reducers on undecodable frames\<close>

text \<open>
  Claim C1. The proofread reducer, the summarize reducer and the assistant result
  reducer do not skip a frame whose payload is no JSON: each of them ends in the
  JSONDecodeError, also when the other frames are fine.
\<close>

theorem undecodable_frame_aborts:
  \<open>parse_proofread_response json_loads
      (''data: {"delta":"Hel"}'' @ nl # nl # ''data: {'' @ nl # nl # ''data: {"delta":"lo"}'' @ [nl, nl])
     = Inl JSONDecodeError
   \<and> parse_summary_response json_loads (''update:{'' @ nl # ''final:{"type":"final"}'')
     = Inl JSONDecodeError
   \<and> parse_assistant_response json_raw_decode (''thread.json:{'' @ nl # ''new_message.json:{}'')
     = Inl JSONDecodeError\<close>
proof -
  have ev: \<open>parse_sse_events
      (''data: {"delta":"Hel"}'' @ nl # nl # ''data: {'' @ nl # nl # ''data: {"delta":"lo"}'' @ [nl, nl])
     = [\<lparr>event = None, data = ''{"delta":"Hel"}'', id_val = None\<rparr>,
        \<lparr>event = None, data = ''{'', id_val = None\<rparr>,
        \<lparr>event = None, data = ''{"delta":"lo"}'', id_val = None\<rparr>]\<close>
    by (simp add: parse_sse_events_def nl_def sse_step_def sse_init_def startswith_def
        strip_def is_space_def)
  have d1: \<open>json_loads ''{"delta":"Hel"}'' = Some (JObj [(''delta'', JStr ''Hel'')])\<close>
    by (simp add: json_eval)
  have d2: "json_loads ''{'' = None"
    by (simp add: json_eval)
  have d3: "json_raw_decode ''{'' = None"
    by (simp add: json_eval)
  have s: "strip ''{'' = ''{''"
    by (simp add: strip_def is_space_def)
  have l2: \<open>parse_kagi_stream_lines (''update:{'' @ nl # ''final:{"type":"final"}'') =
     [\<lparr>tag = ''update'', payload = ''{''\<rparr>, \<lparr>tag = ''final'', payload = ''{"type":"final"}''\<rparr>]\<close>
    by (simp add: kagi_eval)
  have l3: "parse_kagi_stream_lines (''thread.json:{'' @ nl # ''new_message.json:{}'') =
     [\<lparr>tag = ''thread.json'', payload = ''{''\<rparr>, \<lparr>tag = ''new_message.json'', payload = ''{}''\<rparr>]"
    by (simp add: kagi_eval)
  have a: \<open>parse_proofread_response json_loads
      (''data: {"delta":"Hel"}'' @ nl # nl # ''data: {'' @ nl # nl # ''data: {"delta":"lo"}'' @ [nl, nl])
     = Inl JSONDecodeError\<close>
    unfolding parse_proofread_response_def ev
    by (simp add: d1 d2 and_then_def)
  have b: \<open>parse_summary_response json_loads (''update:{'' @ nl # ''final:{"type":"final"}'')
     = Inl JSONDecodeError\<close>
    unfolding parse_summary_response_def l2
    by (simp add: d2 and_then_def)
  have c: "parse_assistant_response json_raw_decode (''thread.json:{'' @ nl # ''new_message.json:{}'')
     = Inl JSONDecodeError"
    unfolding parse_assistant_response_def l3
    by (simp add: parse_json_def s d3 and_then_def)
  from a b c show ?thesis by simp
qed


section \<open>Properties of the assistant stream\<close>

lemmas line_eval = parse_kagi_stream_line_def nl_def tag_match_def is_tag_char_def
  is_tag_start_def is_ascii_letter_def strip_def is_space_def

lemma remdups_adj_hd: "remdups_adj (x # xs) = x # tl (remdups_adj (x # xs))"
  by (induction xs) auto

lemma skipped_step:
  assumes "classify rd l = Skipped"
  shows "prompt_stream_loop rd prev (l # rest) = prompt_stream_loop rd prev rest"
  using assms
  by (auto simp: classify_def parse_json_def split: option.splits if_splits json.splits)

lemma snapshot_step:
  assumes "classify rd l = Snapshot t"
  shows "prompt_stream_loop rd prev (l # rest) =
           (if t \<noteq> [] \<and> \<not> py_eq (JStr t) prev
            then (case prompt_stream_loop rd (JStr t) rest of (ys, e) \<Rightarrow> (JStr t # ys, e))
            else prompt_stream_loop rd prev rest)"
  using assms
  by (auto simp: classify_def parse_json_def split: option.splits if_splits json.splits)

lemma prompt_loop_snapshots:
  "list_all (\<lambda>l. classify rd l \<noteq> NoSnapshot) raw_lines \<Longrightarrow>
   prompt_stream_loop rd (JStr p) raw_lines =
     (map JStr (tl (remdups_adj
        (p # filter (\<lambda>t. t \<noteq> []) (snapshots (map (classify rd) raw_lines))))), None)"
proof (induction raw_lines arbitrary: p)
  case Nil
  then show ?case by simp
next
  case (Cons l ls)
  then have rest: "list_all (\<lambda>l. classify rd l \<noteq> NoSnapshot) ls"
    and l: "classify rd l \<noteq> NoSnapshot"
    by auto
  show ?case
  proof (cases "classify rd l")
    case Skipped
    show ?thesis
      unfolding skipped_step [OF Skipped] using Cons.IH [OF rest, of p] Skipped by simp
  next
    case NoSnapshot
    with l show ?thesis by simp
  next
    case (Snapshot t)
    note step = snapshot_step [OF Snapshot, of "JStr p" ls]
    let ?F = "filter (\<lambda>t. t \<noteq> []) (snapshots (map (classify rd) ls))"
    show ?thesis
    proof (cases "t \<noteq> [] \<and> t \<noteq> p")
      case True
      have "map JStr (remdups_adj (t # ?F)) = JStr t # map JStr (tl (remdups_adj (t # ?F)))"
        by (metis list.simps(9) remdups_adj_hd)
      then show ?thesis
        unfolding step using True Cons.IH [OF rest, of t] Snapshot by auto
    next
      case False
      then show ?thesis
        unfolding step using Cons.IH [OF rest, of p] Snapshot by auto
    qed
  qed
qed

text \<open>
  Claim C5. On any stream in which every \<^verbatim>\<open>tokens.json\<close> payload that decodes is a
  snapshot, whatever other lines it holds, the streaming variant yields the non-empty
  snapshot texts with every adjacent repetition removed: a snapshot is yielded exactly
  when its text is not empty and differs from the snapshot yielded before it. The
  snapshots \<^verbatim>\<open>""\<close>, \<^verbatim>\<open><p>A</p>\<close>, \<^verbatim>\<open><p>A</p>\<close>, \<^verbatim>\<open><p>AB</p>\<close> yield
  \<^verbatim>\<open><p>A</p>\<close> and \<^verbatim>\<open><p>AB</p>\<close>, also between frames of other tags, a blank line and
  a payload that does not decode.
\<close>

theorem prompt_stream_yields_changes:
  "list_all (\<lambda>l. classify raw_decode l \<noteq> NoSnapshot) raw_lines \<Longrightarrow>
   prompt_stream raw_decode 200 body raw_lines =
     (map JStr (remdups_adj (filter (\<lambda>t. t \<noteq> [])
                                    (snapshots (map (classify raw_decode) raw_lines)))),
      None)"
proof -
  assume a: "list_all (\<lambda>l. classify raw_decode l \<noteq> NoSnapshot) raw_lines"
  let ?F = "filter (\<lambda>t. t \<noteq> []) (snapshots (map (classify raw_decode) raw_lines))"
  have "remdups_adj ([] # ?F) = [] # remdups_adj ?F"
    by (cases ?F) (auto simp: filter_eq_Cons_iff)
  with prompt_loop_snapshots [OF a, of "[]"] show ?thesis
    by (simp add: prompt_stream_def)
qed

theorem prompt_stream_yields_changes_witness:
  \<open>prompt_stream json_raw_decode 200 []
     [''hi:{"v":"1"}'', ''tokens.json:{"text":""}'', '''', ''tokens.json:{"text":"<p>A</p>"}'',
      ''tokens.json:{'', ''tokens.json:{"text":"<p>A</p>"}'', ''new_message.json:{"id":"m"}'',
      ''tokens.json:{"text":"<p>AB</p>"}'']
   = ([JStr ''<p>A</p>'', JStr ''<p>AB</p>''], None)\<close>
proof -
  have s0: \<open>classify json_raw_decode ''hi:{"v":"1"}'' = Skipped\<close>
    by (simp add: classify_def line_eval)
  have s1: \<open>classify json_raw_decode ''tokens.json:{"text":""}'' = Snapshot []\<close>
    by (simp add: classify_def line_eval json_eval)
  have s2: \<open>classify json_raw_decode '''' = Skipped\<close>
    by (simp add: classify_def line_eval)
  have s3: \<open>classify json_raw_decode ''tokens.json:{"text":"<p>A</p>"}'' = Snapshot ''<p>A</p>''\<close>
    by (simp add: classify_def line_eval json_eval)
  have s4: \<open>classify json_raw_decode ''tokens.json:{'' = Skipped\<close>
    by (simp add: classify_def line_eval json_eval)
  have s5: \<open>classify json_raw_decode ''new_message.json:{"id":"m"}'' = Skipped\<close>
    by (simp add: classify_def line_eval)
  have s6: \<open>classify json_raw_decode ''tokens.json:{"text":"<p>AB</p>"}'' = Snapshot ''<p>AB</p>''\<close>
    by (simp add: classify_def line_eval json_eval)
  have m: \<open>map (classify json_raw_decode)
     [''hi:{"v":"1"}'', ''tokens.json:{"text":""}'', '''', ''tokens.json:{"text":"<p>A</p>"}'',
      ''tokens.json:{'', ''tokens.json:{"text":"<p>A</p>"}'', ''new_message.json:{"id":"m"}'',
      ''tokens.json:{"text":"<p>AB</p>"}'']
     = [Skipped, Snapshot [], Skipped, Snapshot ''<p>A</p>'', Skipped, Snapshot ''<p>A</p>'',
        Skipped, Snapshot ''<p>AB</p>'']\<close>
    by (simp only: list.map s0 s1 s2 s3 s4 s5 s6)
  have a: \<open>list_all (\<lambda>l. classify json_raw_decode l \<noteq> NoSnapshot)
     [''hi:{"v":"1"}'', ''tokens.json:{"text":""}'', '''', ''tokens.json:{"text":"<p>A</p>"}'',
      ''tokens.json:{'', ''tokens.json:{"text":"<p>A</p>"}'', ''new_message.json:{"id":"m"}'',
      ''tokens.json:{"text":"<p>AB</p>"}'']\<close>
    by (simp only: list.pred_inject s0 s1 s2 s3 s4 s5 s6) simp
  from prompt_stream_yields_changes [OF a, of "[]"] show ?thesis
    unfolding m by simp
qed


section \<open>Properties of the assistant result reducer\<close>








section \<open>Properties of the search pagination\<close>

lemma page_chain_snoc:
  "ys \<noteq> [] \<Longrightarrow> page_chain search ys \<Longrightarrow> 0 < next_batch (info (last ys)) \<Longrightarrow>
   search (Some (next_batch (info (last ys)))) = Inr r \<Longrightarrow> page_chain search (ys @ [r])"
  by (induction search ys rule: page_chain.induct) auto

text \<open>From a page on, the loop runs through the pages that follow it in a chain.\<close>

lemma search_all_loop_complete:
  "page_chain search (result # ps) \<Longrightarrow>
   search_all_loop search result yielded =
     search_all_loop search (last (result # ps)) (yielded @ ps)"
proof (induction ps arbitrary: result yielded)
  case Nil
  show ?case by simp
next
  case (Cons r ps)
  then have nb: "0 < next_batch (info result)"
    and s: "search (Some (next_batch (info result))) = Inr r"
    and ch: "page_chain search (r # ps)"
    by auto
  have "search_all_loop search result yielded = search_all_loop search r (yielded @ [r])"
    using nb s by (subst search_all_loop.simps) simp
  also have "\<dots> = search_all_loop search (last (r # ps)) ((yielded @ [r]) @ ps)"
    by (rule Cons.IH [OF ch])
  finally show ?case by simp
qed

lemma search_all_loop_chain:
  assumes "search_all_loop search result yielded = Some y"
  shows "chain_result search result yielded y"
proof (rule search_all_loop.raw_induct [where P = chain_result, OF _ assms])
  fix loop :: "(int option \<Rightarrow> error + ('a, 'b) SearchResult) \<Rightarrow> ('a, 'b) SearchResult \<Rightarrow>
     ('a, 'b) SearchResult list \<Rightarrow> (('a, 'b) SearchResult list \<times> error option) option"
    and sr :: "int option \<Rightarrow> error + ('a, 'b) SearchResult"
    and res :: "('a, 'b) SearchResult"
    and ys :: "('a, 'b) SearchResult list"
    and z :: "('a, 'b) SearchResult list \<times> error option"
  assume IH: "\<And>s r l w. loop s r l = Some w \<Longrightarrow> chain_result s r l w"
    and body: "(if 0 < next_batch (info res)
                then case sr (Some (next_batch (info res))) of
                       Inl e \<Rightarrow> Some (ys, Some e)
                     | Inr r \<Rightarrow> loop sr r (ys @ [r])
                else Some (ys, None)) = Some z"
  show "chain_result sr res ys z"
  proof (cases "0 < next_batch (info res)")
    case False
    with body show ?thesis by (auto simp: chain_result_def)
  next
    case True
    show ?thesis
    proof (cases "sr (Some (next_batch (info res)))")
      case (Inl err)
      with True body show ?thesis by (auto simp: chain_result_def)
    next
      case (Inr r)
      with True body have call: "loop sr r (ys @ [r]) = Some z" by simp
      have "page_chain sr (ys @ [r])"
        if "ys \<noteq> []" "last ys = res" "page_chain sr ys"
        using that True Inr by (auto intro: page_chain_snoc)
      with IH [OF call] show ?thesis by (simp add: chain_result_def)
    qed
  qed
qed

text \<open>
  Claim C8. When the first page asks for batch 2 and the page of batch 2 has
  \<^verbatim>\<open>next_batch = -1\<close>, the generator yields these two pages and ends. In general it
  yields the pages \<open>rs\<close> and ends without an exception exactly when \<open>rs\<close> starts with
  the first page, each page but the last has a positive \<^verbatim>\<open>next_batch\<close> and is followed
  by the page of that batch, and the last page has no positive \<^verbatim>\<open>next_batch\<close>: a
  further page is requested exactly after a page whose \<^verbatim>\<open>next_batch\<close> is positive. It
  ends in an exception exactly when the first search raises it or the search after such
  a chain does.
\<close>

theorem search_all_follows_next_batch:
  "(search None = Inr p1 \<and> next_batch (info p1) = 2
      \<and> search (Some 2) = Inr p2 \<and> next_batch (info p2) = - 1
    \<longrightarrow> search_all search = Some ([p1, p2], None))
   \<and> (search_all search = Some (rs, None) \<longleftrightarrow>
        rs \<noteq> [] \<and> search None = Inr (hd rs) \<and> page_chain search rs
        \<and> \<not> 0 < next_batch (info (last rs)))
   \<and> (search_all search = Some (rs, Some e) \<longleftrightarrow>
        (rs = [] \<and> search None = Inl e)
        \<or> (rs \<noteq> [] \<and> search None = Inr (hd rs) \<and> page_chain search rs
           \<and> 0 < next_batch (info (last rs))
           \<and> search (Some (next_batch (info (last rs)))) = Inl e))"
proof (intro conjI)
  show "search None = Inr p1 \<and> next_batch (info p1) = 2
      \<and> search (Some 2) = Inr p2 \<and> next_batch (info p2) = - 1
    \<longrightarrow> search_all search = Some ([p1, p2], None)"
    by (simp add: search_all_def search_all_loop.simps)
next
  have fwd: "rs \<noteq> [] \<and> hd rs = r \<and> page_chain search rs
          \<and> (case e' of
                None \<Rightarrow> \<not> 0 < next_batch (info (last rs))
              | Some err \<Rightarrow> 0 < next_batch (info (last rs))
                            \<and> search (Some (next_batch (info (last rs)))) = Inl err)"
    if "search_all_loop search r [r] = Some (rs, e')" for r e'
    using search_all_loop_chain [OF that] by (auto simp: chain_result_def split: option.splits)
  have bwd: "search_all_loop search (hd rs) [hd rs] = search_all_loop search (last rs) rs"
    if "rs \<noteq> []" "page_chain search rs"
  proof -
    from that obtain r ps where rs: "rs = r # ps" by (cases rs) auto
    with that search_all_loop_complete [of search r ps "[r]"] show ?thesis by simp
  qed
  have stop: "search_all_loop search (last rs) rs = Some (rs, None)"
    if "\<not> 0 < next_batch (info (last rs))"
    using that by (subst search_all_loop.simps) simp
  have fail: "search_all_loop search (last rs) rs = Some (rs, Some e)"
    if "0 < next_batch (info (last rs))"
      "search (Some (next_batch (info (last rs)))) = Inl e"
    using that by (subst search_all_loop.simps) simp
  show "search_all search = Some (rs, None) \<longleftrightarrow>
        rs \<noteq> [] \<and> search None = Inr (hd rs) \<and> page_chain search rs
        \<and> \<not> 0 < next_batch (info (last rs))"
  proof
    assume "search_all search = Some (rs, None)"
    then obtain r where r: "search None = Inr r"
      and l: "search_all_loop search r [r] = Some (rs, None)"
      by (cases "search None") (auto simp: search_all_def)
    from fwd [OF l] r show "rs \<noteq> [] \<and> search None = Inr (hd rs) \<and> page_chain search rs
        \<and> \<not> 0 < next_batch (info (last rs))"
      by simp
  next
    assume a: "rs \<noteq> [] \<and> search None = Inr (hd rs) \<and> page_chain search rs
        \<and> \<not> 0 < next_batch (info (last rs))"
    then show "search_all search = Some (rs, None)"
      using bwd stop by (simp add: search_all_def)
  qed
  show "search_all search = Some (rs, Some e) \<longleftrightarrow>
        (rs = [] \<and> search None = Inl e)
        \<or> (rs \<noteq> [] \<and> search None = Inr (hd rs) \<and> page_chain search rs
           \<and> 0 < next_batch (info (last rs))
           \<and> search (Some (next_batch (info (last rs)))) = Inl e)"
  proof
    assume a: "search_all search = Some (rs, Some e)"
    show "(rs = [] \<and> search None = Inl e)
        \<or> (rs \<noteq> [] \<and> search None = Inr (hd rs) \<and> page_chain search rs
           \<and> 0 < next_batch (info (last rs))
           \<and> search (Some (next_batch (info (last rs)))) = Inl e)"
    proof (cases "search None")
      case (Inl err)
      with a show ?thesis by (simp add: search_all_def)
    next
      case (Inr r)
      with a have l: "search_all_loop search r [r] = Some (rs, Some e)"
        by (simp add: search_all_def)
      from fwd [OF l] Inr show ?thesis by simp
    qed
  next
    assume "(rs = [] \<and> search None = Inl e)
        \<or> (rs \<noteq> [] \<and> search None = Inr (hd rs) \<and> page_chain search rs
           \<and> 0 < next_batch (info (last rs))
           \<and> search (Some (next_batch (info (last rs)))) = Inl e)"
    then show "search_all search = Some (rs, Some e)"
      using bwd fail by (auto simp: search_all_def)
  qed
qed

theorem search_all_follows_next_batch_witness:
  "search_all two_pages = Some ([page ''first'' 1 2, page ''second'' 2 (- 1)], None)
   \<and> search_all three_pages =
       Some ([page ''first'' 1 2, page ''second'' 2 3, page ''third'' 3 (- 1)], None)
   \<and> search_all broken_pages =
       Some ([page ''first'' 1 2], Some (APIError ''Search request failed: 500'' 500 []))"
proof -
  have a: "two_pages None = Inr (page ''first'' 1 2) \<and> next_batch (info (page ''first'' 1 2)) = 2
      \<and> two_pages (Some 2) = Inr (page ''second'' 2 (- 1))
      \<and> next_batch (info (page ''second'' 2 (- 1))) = - 1"
    by (simp add: two_pages_def page_def)
  let ?rs = "[page ''first'' 1 2, page ''second'' 2 3, page ''third'' 3 (- 1)]"
  have b: "?rs \<noteq> [] \<and> three_pages None = Inr (hd ?rs) \<and> page_chain three_pages ?rs
        \<and> \<not> 0 < next_batch (info (last ?rs))"
    by (simp add: three_pages_def page_def)
  have c: "[page ''first'' 1 2] \<noteq> [] \<and> broken_pages None = Inr (hd [page ''first'' 1 2])
       \<and> page_chain broken_pages [page ''first'' 1 2]
       \<and> 0 < next_batch (info (last [page ''first'' 1 2]))
       \<and> broken_pages (Some (next_batch (info (last [page ''first'' 1 2])))) =
           Inl (APIError ''Search request failed: 500'' 500 [])"
    by (simp add: broken_pages_def page_def)
  from a search_all_follows_next_batch
         [of two_pages "page ''first'' 1 2" "page ''second'' 2 (- 1)" "[]" undefined]
  have r1: "search_all two_pages = Some ([page ''first'' 1 2, page ''second'' 2 (- 1)], None)"
    by blast
  from b search_all_follows_next_batch [of three_pages undefined undefined ?rs undefined]
  have r2: "search_all three_pages = Some (?rs, None)"
    by blast
  from c search_all_follows_next_batch
         [of broken_pages undefined undefined "[page ''first'' 1 2]"
             "APIError ''Search request failed: 500'' 500 []"]
  have r3: "search_all broken_pages =
       Some ([page ''first'' 1 2], Some (APIError ''Search request failed: 500'' 500 []))"
    by blast
  from r1 r2 r3 show ?thesis by simp
qed

end
